theory Spec2Isabelle
  imports Main
begin

section \<open>Event model (src/mocktcp.py, the \<open>ServerActionEvent\<close> dataclasses)\<close>

text \<open>
  Python \<open>bytes\<close> are lists of 8-bit characters.  Exceptions travel inside
  \<open>ExceptionEvent\<close>, and \<open>UnexpectedEventError\<close> carries two events, so the two
  types are mutually recursive.  Besides the repository's own
  \<open>UnexpectedEventError\<close> the exception type lists what the transport and the
  Python runtime raise into the tasks: \<open>asyncio.TimeoutError\<close>,
  \<open>ConnectionResetError\<close>, a failed \<open>assert\<close>, an attribute access on \<open>None\<close>
  (reader or writer not yet registered), \<open>IncompleteReadError\<close> with the partial
  data, the \<open>ValueError\<close> of a \<open>task_done\<close> too many, and any other exception,
  named by its class.
\<close>

type_synonym bytes = string

datatype event =
    ClientConnectedEvent
  | SecondClientConnectionAttempted
  | ReadZeroBytes
  | ClientCalledWriterWaitClosed
  | NoRemainingSentData
  | ExceptionEvent exn
  | BytesReadEvent bytes
  | TimeoutEvent
  | UnreadSentBytes bytes
and exn =
    UnexpectedEventError event event
  | TimeoutError
  | ConnectionResetError
  | AssertionError
  | AttributeError
  | IncompleteReadError bytes
  | ValueError
  | OtherException string

text \<open>
  An f-string before rendering: literal text and the values formatted into it.
  \<open>Exception\<close> is what \<open>join\<close> and the declaration calls raise to the test;
  \<open>Task_exception\<close> is the exception a task died of, raised again where the
  task is awaited.
\<close>

datatype piece = Lit string | Fmt_bytes bytes | Fmt_exn exn

type_synonym message = "piece list"

datatype py_exception = Exception message | Task_exception exn

section \<open>Expectation steps\<close>

text \<open>
  One constructor per step class, with the fields \<open>__init__\<close> stores (the
  reference to the server is the explicit state argument of every operation).
  The timeout is whatever the caller passed; the code only hands it on to
  \<open>asyncio.wait_for\<close>, so its type stays a parameter.
\<close>

datatype 't step =
    ExpectConnect 't
  | ExpectClientCalledWriterWaitClosed 't
  | ExpectBytes bytes 't
  | ExpectReadZeroBytes 't
  | ExpectClientReadAllSentBytes 't
  | SendBytes bytes

text \<open>
  Where a background task stands between two runs of the event loop: blocked in
  the \<open>get\<close> at the head of its loop, suspended inside the body, cancelled, or
  (the evaluator only, whose \<open>task_done\<close> is outside any \<open>try\<close>) ended by an
  exception.
\<close>

datatype 't evaluator_pc =
    Awaiting_expectation
  | Evaluating "'t step"
  | Evaluator_cancelled
  | Evaluator_failed exn

datatype 't executor_pc =
    Awaiting_action
  | Executing "'t step"
  | Executor_cancelled

type_synonym stream = nat

text \<open>
  The fields of \<open>MockTcpServer\<close> that the engine reads or writes.  An
  \<open>asyncio.Queue\<close> is its item list; the expectation queue also needs the
  counter that \<open>put_nowait\<close> increments, \<open>task_done\<close> decrements and \<open>Queue.join\<close>
  waits on.  The two task fields hold where each task stands.  Streams are
  named by numbers.  The port, the mocker and the patched client streams play
  no part in what follows.
\<close>

record 't server =
  connected :: bool
  errors :: "exn list"
  join_already_failed :: bool
  stopped :: bool
  server_event_queue :: "event list"
  server_actions :: "'t step list"
  expecations_queue :: "'t step list"
  unfinished_tasks :: nat
  evaluator_task :: "'t evaluator_pc"
  server_action_task :: "'t executor_pc"
  reader :: "stream option"
  writer :: "stream option"
  client_called_writer_waited_closed :: bool
  data_read_by_client :: bytes
  data_sent_from_server :: bytes

text \<open>
  The server after \<open>__init__\<close> and \<open>start\<close>: nothing queued, nothing recorded,
  both tasks created and blocked in their first \<open>get\<close>.
\<close>

definition MockTcpServer :: "'t server" where
  "MockTcpServer = \<lparr>
     connected = False, errors = [], join_already_failed = False, stopped = False,
     server_event_queue = [], server_actions = [], expecations_queue = [],
     unfinished_tasks = 0,
     evaluator_task = Awaiting_expectation, server_action_task = Awaiting_action,
     reader = None, writer = None,
     client_called_writer_waited_closed = False,
     data_read_by_client = [], data_sent_from_server = [] \<rparr>"

section \<open>Connection acceptance (\<open>handle_client_connection\<close>)\<close>

definition handle_client_connection :: "stream \<Rightarrow> stream \<Rightarrow> 't server \<Rightarrow> 't server" where
  "handle_client_connection r w s =
     (if connected s then
        s\<lparr>server_event_queue := server_event_queue s @ [SecondClientConnectionAttempted]\<rparr>
      else
        s\<lparr>connected := True, reader := Some r, writer := Some w,
          server_event_queue := server_event_queue s @ [ClientConnectedEvent]\<rparr>)"

section \<open>The two operations of every step\<close>

text \<open>
  What a transport read hands to an action: the bytes received, or the
  exception that \<open>asyncio.wait_for\<close> lets through (\<open>TimeoutError\<close> when the
  step's timeout elapsed first).  A write either returns or raises.
\<close>

datatype read_result = Received bytes | Read_raises exn

type_synonym write_result = "exn option"

text \<open>
  \<open>self.server.writer.write\<close> with no writer registered is an attribute
  access on \<open>None\<close>.
\<close>

definition writer_write :: "'t server \<Rightarrow> write_result \<Rightarrow> write_result" where
  "writer_write s wr = (case writer s of None \<Rightarrow> Some AttributeError | Some w \<Rightarrow> wr)"

subsection \<open>\<open>ExpectConnect\<close>\<close>

definition ExpectConnect_server_action :: "exn + event option" where
  "ExpectConnect_server_action = Inr None"

definition ExpectConnect_evaluate :: "event \<Rightarrow> exn + unit" where
  "ExpectConnect_evaluate next_event =
     (if next_event \<noteq> ClientConnectedEvent
      then Inl (UnexpectedEventError ClientConnectedEvent next_event)
      else Inr ())"

subsection \<open>\<open>ExpectClientCalledWriterWaitClosed\<close>\<close>

definition ExpectClientCalledWriterWaitClosed_server_action :: "exn + event option" where
  "ExpectClientCalledWriterWaitClosed_server_action = Inr None"

definition ExpectClientCalledWriterWaitClosed_evaluate :: "event \<Rightarrow> exn + unit" where
  "ExpectClientCalledWriterWaitClosed_evaluate next_event =
     (if next_event \<noteq> ClientCalledWriterWaitClosed
      then Inl (UnexpectedEventError ClientCalledWriterWaitClosed next_event)
      else Inr ())"

subsection \<open>\<open>ExpectBytes\<close>\<close>

definition ExpectBytes_server_action :: "read_result \<Rightarrow> exn + event option" where
  "ExpectBytes_server_action rr =
     (case rr of
        Received received \<Rightarrow> Inr (Some (BytesReadEvent received))
      | Read_raises TimeoutError \<Rightarrow> Inr (Some TimeoutEvent)
      | Read_raises e \<Rightarrow> Inl e)"

definition ExpectBytes_evaluate :: "bytes \<Rightarrow> event \<Rightarrow> exn + unit" where
  "ExpectBytes_evaluate expected_bytes next_event =
     (case next_event of
        BytesReadEvent bytes_read \<Rightarrow>
          if bytes_read \<noteq> expected_bytes
          then Inl (UnexpectedEventError (BytesReadEvent expected_bytes) next_event)
          else Inr ()
      | _ \<Rightarrow> Inl (UnexpectedEventError (BytesReadEvent expected_bytes) next_event))"

subsection \<open>\<open>ExpectReadZeroBytes\<close>\<close>

definition ExpectReadZeroBytes_server_action :: "read_result \<Rightarrow> exn + event option" where
  "ExpectReadZeroBytes_server_action rr =
     (case rr of
        Received received \<Rightarrow>
          if length received = 0 then Inr (Some ReadZeroBytes)
          else Inr (Some (BytesReadEvent received))
      | Read_raises TimeoutError \<Rightarrow> Inr (Some TimeoutEvent)
      | Read_raises ConnectionResetError \<Rightarrow> Inr (Some ReadZeroBytes)
      | Read_raises e \<Rightarrow> Inl e)"

definition ExpectReadZeroBytes_evaluate :: "event \<Rightarrow> exn + unit" where
  "ExpectReadZeroBytes_evaluate next_event =
     (if next_event \<noteq> ReadZeroBytes
      then Inl (UnexpectedEventError ReadZeroBytes next_event)
      else Inr ())"

subsection \<open>\<open>ExpectClientReadAllSentBytes\<close>\<close>

text \<open>
  The body of the \<open>try\<close> block, then the action with its
  \<open>except asyncio.TimeoutError\<close> handler around it.  \<open>sent_bytes.startswith\<close> is
  the list prefix test, the slice \<open>sent_bytes[len(read_bytes):]\<close> is \<open>drop\<close>.
  The action is a method of a step that stores \<open>timeout\<close>, hence the argument.
\<close>

definition startswith :: "bytes \<Rightarrow> bytes \<Rightarrow> bool" where
  "startswith xs p = (take (length p) xs = p)"

definition ExpectClientReadAllSentBytes_try :: "'t server \<Rightarrow> exn + event option" where
  "ExpectClientReadAllSentBytes_try s =
     (let sent_bytes = data_sent_from_server s;
          read_bytes = data_read_by_client s
      in if read_bytes = sent_bytes then Inr (Some NoRemainingSentData)
         else if \<not> startswith sent_bytes read_bytes then Inl AssertionError
         else Inr (Some (UnreadSentBytes (drop (length read_bytes) sent_bytes))))"

definition ExpectClientReadAllSentBytes_server_action ::
    "'t \<Rightarrow> 't server \<Rightarrow> exn + event option" where
  "ExpectClientReadAllSentBytes_server_action timeout s =
     (case ExpectClientReadAllSentBytes_try s of
        Inl TimeoutError \<Rightarrow> Inr (Some TimeoutEvent)
      | r \<Rightarrow> r)"

definition ExpectClientReadAllSentBytes_evaluate :: "event \<Rightarrow> exn + unit" where
  "ExpectClientReadAllSentBytes_evaluate next_event =
     (if next_event \<noteq> NoRemainingSentData
      then Inl (UnexpectedEventError NoRemainingSentData next_event)
      else Inr ())"

subsection \<open>\<open>SendBytes\<close>\<close>

text \<open>
  \<open>writer.write\<close>, then the ledger update, both inside
  \<open>try ... except BaseException\<close>, whose handler only logs; the method then falls
  off its end and returns \<open>None\<close>.
\<close>

definition SendBytes_server_action ::
    "bytes \<Rightarrow> write_result \<Rightarrow> 't server \<Rightarrow> (exn + event option) \<times> 't server" where
  "SendBytes_server_action data wr s =
     (case writer_write s wr of
        None \<Rightarrow> (Inr None, s\<lparr>data_sent_from_server := data_sent_from_server s @ data\<rparr>)
      | Some e \<Rightarrow> (Inr None, s))"

definition SendBytes_evaluate :: "exn + unit" where
  "SendBytes_evaluate = Inr ()"

section \<open>The error interpreter (\<open>interpret_error\<close>)\<close>

definition cannot_interpret :: "exn \<Rightarrow> message" where
  "cannot_interpret exception = [Lit ''Cannot interpret '', Fmt_exn exception]"

definition interpret_error :: "exn \<Rightarrow> message" where
  "interpret_error exception =
     (case exception of
        UnexpectedEventError expected_event actual_event \<Rightarrow>
          (case expected_event of
             ReadZeroBytes \<Rightarrow>
               (case actual_event of
                  SecondClientConnectionAttempted \<Rightarrow>
                    [Lit ''While waiting for client to disconnect a second connection was attempted'']
                | TimeoutEvent \<Rightarrow>
                    [Lit ''Timed out waiting for client to disconnect. Remember to call `writer.close()`.'']
                | BytesReadEvent bytes_read \<Rightarrow>
                    [Lit ''Received unexpected data while waiting for client to disconnect. Data is '',
                     Fmt_bytes bytes_read, Lit ''.'']
                | _ \<Rightarrow> cannot_interpret exception)
           | ClientConnectedEvent \<Rightarrow>
               (case actual_event of
                  TimeoutEvent \<Rightarrow> [Lit ''Timed out waiting for client to connect'']
                | _ \<Rightarrow> cannot_interpret exception)
           | BytesReadEvent expected_bytes \<Rightarrow>
               (case actual_event of
                  TimeoutEvent \<Rightarrow> [Lit ''Timed out waiting for '', Fmt_bytes expected_bytes]
                | ClientConnectedEvent \<Rightarrow>
                    [Lit ''Missing `expect_connect()` before `expect_bytes('',
                     Fmt_bytes expected_bytes, Lit '')`'']
                | BytesReadEvent bytes_read \<Rightarrow>
                    [Lit ''Expected to read '', Fmt_bytes expected_bytes,
                     Lit '' but actually read '', Fmt_bytes bytes_read]
                | _ \<Rightarrow> cannot_interpret exception)
           | ClientCalledWriterWaitClosed \<Rightarrow>
               (case actual_event of
                  TimeoutEvent \<Rightarrow>
                    [Lit ''Timed out waiting for client to call `await writer.wait_closed()`.'']
                | _ \<Rightarrow> cannot_interpret exception)
           | NoRemainingSentData \<Rightarrow>
               (case actual_event of
                  UnreadSentBytes unread_bytes \<Rightarrow>
                    [Lit ''There is data sent by server that was not read by client: unread_bytes='',
                     Fmt_bytes unread_bytes, Lit ''.'']
                | _ \<Rightarrow> cannot_interpret exception)
           | _ \<Rightarrow> cannot_interpret exception)
      | _ \<Rightarrow> cannot_interpret exception)"

section \<open>Declaration calls\<close>

definition check_not_stopped :: "'t server \<Rightarrow> py_exception + unit" where
  "check_not_stopped s =
     (if stopped s then Inl (Exception [Lit ''Fixture is stopped'']) else Inr ())"

text \<open>\<open>expecations_queue.put_nowait\<close>: the item goes to the back, one more task is unfinished.\<close>

definition put_nowait :: "'t step \<Rightarrow> 't server \<Rightarrow> 't server" where
  "put_nowait item s =
     s\<lparr>expecations_queue := expecations_queue s @ [item],
       unfinished_tasks := unfinished_tasks s + 1\<rparr>"

definition expect_connect :: "'t \<Rightarrow> 't server \<Rightarrow> py_exception + 't server" where
  "expect_connect timeout s =
     (case check_not_stopped s of
        Inl e \<Rightarrow> Inl e
      | Inr _ \<Rightarrow> Inr (put_nowait (ExpectConnect timeout) s))"

definition expect_bytes :: "bytes \<Rightarrow> 't \<Rightarrow> 't server \<Rightarrow> py_exception + 't server" where
  "expect_bytes expected_bytes timeout s =
     (case check_not_stopped s of
        Inl e \<Rightarrow> Inl e
      | Inr _ \<Rightarrow> Inr (put_nowait (ExpectBytes expected_bytes timeout) s))"

definition send_bytes :: "bytes \<Rightarrow> 't server \<Rightarrow> py_exception + 't server" where
  "send_bytes data s =
     (case check_not_stopped s of
        Inl e \<Rightarrow> Inl e
      | Inr _ \<Rightarrow> Inr (put_nowait (SendBytes data) s))"

definition expect_disconnect :: "'t \<Rightarrow> 't server \<Rightarrow> py_exception + 't server" where
  "expect_disconnect timeout s =
     (case check_not_stopped s of
        Inl e \<Rightarrow> Inl e
      | Inr _ \<Rightarrow>
          Inr (put_nowait (ExpectClientReadAllSentBytes timeout)
                (put_nowait (ExpectClientCalledWriterWaitClosed timeout)
                  (put_nowait (ExpectReadZeroBytes timeout) s))))"

section \<open>Peer-side interception\<close>

definition client_read :: "bytes \<Rightarrow> 't server \<Rightarrow> 't server" where
  "client_read data s = s\<lparr>data_read_by_client := data_read_by_client s @ data\<rparr>"

definition client_writer_wait_closed :: "'t server \<Rightarrow> 't server" where
  "client_writer_wait_closed s = s\<lparr>client_called_writer_waited_closed := True\<rparr>"

section \<open>The scheduler: evaluator and executor tasks\<close>

definition error :: "exn \<Rightarrow> 't server \<Rightarrow> 't server" where
  "error exception s = s\<lparr>errors := errors s @ [exception]\<rparr>"

text \<open>
  \<open>Queue.task_done\<close> raises \<open>ValueError\<close> when no task is unfinished (\<open>None\<close>
  here) and decrements the counter otherwise.
\<close>

definition task_done :: "'t server \<Rightarrow> 't server option" where
  "task_done s =
     (if unfinished_tasks s = 0 then None
      else Some (s\<lparr>unfinished_tasks := unfinished_tasks s - 1\<rparr>))"

text \<open>
  The last statement of the evaluator's loop body, \<open>task_done\<close>, stands outside
  every \<open>try\<close>: if it raises, the task ends with that exception; otherwise the
  task is back at the head of its loop.
\<close>

definition end_of_body :: "'t server \<Rightarrow> 't server" where
  "end_of_body s =
     (case task_done s of
        None \<Rightarrow> s\<lparr>evaluator_task := Evaluator_failed ValueError\<rparr>
      | Some s' \<Rightarrow> s'\<lparr>evaluator_task := Awaiting_expectation\<rparr>)"

text \<open>What each step's \<open>evaluate\<close> does once it holds \<open>next_event\<close>.\<close>

fun evaluate :: "'t step \<Rightarrow> event \<Rightarrow> exn + unit" where
  "evaluate (ExpectConnect timeout) next_event = ExpectConnect_evaluate next_event"
| "evaluate (ExpectClientCalledWriterWaitClosed timeout) next_event =
     ExpectClientCalledWriterWaitClosed_evaluate next_event"
| "evaluate (ExpectBytes expected_bytes timeout) next_event =
     ExpectBytes_evaluate expected_bytes next_event"
| "evaluate (ExpectReadZeroBytes timeout) next_event = ExpectReadZeroBytes_evaluate next_event"
| "evaluate (ExpectClientReadAllSentBytes timeout) next_event =
     ExpectClientReadAllSentBytes_evaluate next_event"
| "evaluate (SendBytes data) next_event = SendBytes_evaluate"

text \<open>
  Entering \<open>evaluate\<close>.  \<open>SendBytes.evaluate\<close> returns at once.  The two steps that
  wrap their wait in \<open>asyncio.wait_for\<close> suspend.  The other three call
  \<open>server_event_queue.get()\<close>, which returns without suspending when the queue
  holds an event and suspends when it is empty.  \<open>None\<close> is "suspended".
\<close>

fun begin_evaluate :: "'t step \<Rightarrow> 't server \<Rightarrow> ((exn + unit) \<times> 't server) option" where
  "begin_evaluate (SendBytes data) s = Some (SendBytes_evaluate, s)"
| "begin_evaluate (ExpectConnect timeout) s = None"
| "begin_evaluate (ExpectClientCalledWriterWaitClosed timeout) s = None"
| "begin_evaluate expectation s =
     (case server_event_queue s of
        [] \<Rightarrow> None
      | next_event # q \<Rightarrow> Some (evaluate expectation next_event, s\<lparr>server_event_queue := q\<rparr>))"

text \<open>
  A suspended \<open>evaluate\<close> resumes when what it waits for is there: the latch for
  the close acknowledgement, an event for the others.  \<open>None\<close> is "still blocked".
\<close>

fun resume_evaluate :: "'t step \<Rightarrow> 't server \<Rightarrow> ((exn + unit) \<times> 't server) option" where
  "resume_evaluate (SendBytes data) s = None"
| "resume_evaluate (ExpectClientCalledWriterWaitClosed timeout) s =
     (if client_called_writer_waited_closed s
      then Some (ExpectClientCalledWriterWaitClosed_evaluate ClientCalledWriterWaitClosed, s)
      else None)"
| "resume_evaluate expectation s =
     (case server_event_queue s of
        [] \<Rightarrow> None
      | next_event # q \<Rightarrow> Some (evaluate expectation next_event, s\<lparr>server_event_queue := q\<rparr>))"

text \<open>\<open>except asyncio.TimeoutError: next_event = TimeoutEvent()\<close>, in the two steps that have it.\<close>

fun timeout_evaluate :: "'t step \<Rightarrow> (exn + unit) option" where
  "timeout_evaluate (ExpectConnect timeout) = Some (ExpectConnect_evaluate TimeoutEvent)"
| "timeout_evaluate (ExpectClientCalledWriterWaitClosed timeout) =
     Some (ExpectClientCalledWriterWaitClosed_evaluate TimeoutEvent)"
| "timeout_evaluate expectation = None"

text \<open>
  After \<open>evaluate\<close>: \<open>except Exception as e: self.error(e)\<close>, then the end of the
  loop body.
\<close>

definition evaluated :: "exn + unit \<Rightarrow> 't server \<Rightarrow> 't server" where
  "evaluated r s = end_of_body (case r of Inl e \<Rightarrow> error e s | Inr _ \<Rightarrow> s)"

text \<open>
  \<open>evaluate_expectations\<close>: one pass through the body of \<open>while True\<close>, from
  \<open>expecations_queue.get()\<close> up to the next suspension or the end of the body.
  \<open>None\<close>: the queue is empty and the task stays blocked in \<open>get\<close>.  The action is
  queued as the step itself (the bound method \<open>expectation.server_action\<close>).
\<close>

definition evaluate_expectations :: "'t server \<Rightarrow> 't server option" where
  "evaluate_expectations s =
     (case expecations_queue s of
        [] \<Rightarrow> None
      | expectation # rest \<Rightarrow>
          (let s1 = s\<lparr>expecations_queue := rest\<rparr> in
           if errors s1 = [] then
             (let s2 = s1\<lparr>server_actions := server_actions s1 @ [expectation]\<rparr> in
              case begin_evaluate expectation s2 of
                None \<Rightarrow> Some (s2\<lparr>evaluator_task := Evaluating expectation\<rparr>)
              | Some (r, s3) \<Rightarrow> Some (evaluated r s3))
           else Some (end_of_body s1)))"

text \<open>
  The executor's \<open>try ... except Exception\<close> around the action and the
  \<open>put_nowait\<close> of a result that is not \<open>None\<close>.
\<close>

definition publish :: "exn + event option \<Rightarrow> 't server \<Rightarrow> 't server" where
  "publish r s =
     (case r of
        Inl e \<Rightarrow> (error e s)\<lparr>server_event_queue := server_event_queue s @ [ExceptionEvent e]\<rparr>
      | Inr None \<Rightarrow> s
      | Inr (Some server_event) \<Rightarrow>
          s\<lparr>server_event_queue := server_event_queue s @ [server_event]\<rparr>)"

text \<open>
  \<open>execute_server_actions\<close>: one pass through the body of \<open>while True\<close>.  The two
  reading actions suspend in \<open>wait_for\<close> (unless no reader is registered, which
  raises at once); the other four run to their end.  \<open>wr\<close> is what the
  transport does with a write in this pass.
\<close>

definition execute_server_actions :: "write_result \<Rightarrow> 't server \<Rightarrow> 't server option" where
  "execute_server_actions wr s =
     (case server_actions s of
        [] \<Rightarrow> None
      | server_action # rest \<Rightarrow>
          (let s1 = s\<lparr>server_actions := rest\<rparr> in
           if errors s1 = [] then
             (case server_action of
                ExpectConnect timeout \<Rightarrow> Some (publish ExpectConnect_server_action s1)
              | ExpectClientCalledWriterWaitClosed timeout \<Rightarrow>
                  Some (publish ExpectClientCalledWriterWaitClosed_server_action s1)
              | SendBytes data \<Rightarrow>
                  (case SendBytes_server_action data wr s1 of (r, s2) \<Rightarrow> Some (publish r s2))
              | ExpectClientReadAllSentBytes timeout \<Rightarrow>
                  Some (publish (ExpectClientReadAllSentBytes_server_action timeout s1) s1)
              | ExpectBytes expected_bytes timeout \<Rightarrow>
                  (if reader s1 = None
                   then Some (publish (ExpectBytes_server_action (Read_raises AttributeError)) s1)
                   else Some (s1\<lparr>server_action_task := Executing server_action\<rparr>))
              | ExpectReadZeroBytes timeout \<Rightarrow>
                  (if reader s1 = None
                   then Some (publish (ExpectReadZeroBytes_server_action (Read_raises AttributeError)) s1)
                   else Some (s1\<lparr>server_action_task := Executing server_action\<rparr>)))
           else Some s1))"

text \<open>The read of a suspended action completes with \<open>rr\<close>.\<close>

fun server_action_completes :: "'t step \<Rightarrow> read_result \<Rightarrow> (exn + event option) option" where
  "server_action_completes (ExpectBytes expected_bytes timeout) rr =
     Some (ExpectBytes_server_action rr)"
| "server_action_completes (ExpectReadZeroBytes timeout) rr =
     Some (ExpectReadZeroBytes_server_action rr)"
| "server_action_completes server_action rr = None"

section \<open>\<open>join\<close> and \<open>stop\<close>\<close>

text \<open>
  A call either is still waiting (\<open>Queue.join\<close> blocks while tasks are
  unfinished), returns, or raises; the last two come with the new state.
\<close>

datatype 'a outcome = Pending | Returned 'a | Raised py_exception 'a

definition join :: "'t server \<Rightarrow> 't server outcome" where
  "join s =
     (if join_already_failed s then Returned s
      else if unfinished_tasks s > 0 then Pending
      else (case errors s of
              [] \<Rightarrow> Returned s
            | first_error # later \<Rightarrow>
                Raised (Exception (interpret_error first_error)) (s\<lparr>join_already_failed := True\<rparr>)))"

text \<open>
  The \<open>finally\<close> block of \<open>stop\<close>: \<open>stopped\<close> is set, then the evaluator is
  cancelled and awaited, then the executor.  Awaiting an evaluator that had
  died of an exception raises that exception (only \<open>CancelledError\<close> is caught),
  which ends the block before the executor is cancelled and replaces whatever
  \<open>join\<close> had raised.
\<close>

definition stop_finally :: "'t server \<Rightarrow> 't server" where
  "stop_finally s =
     (case evaluator_task s of
        Evaluator_failed e \<Rightarrow> s\<lparr>stopped := True\<rparr>
      | _ \<Rightarrow> s\<lparr>stopped := True, evaluator_task := Evaluator_cancelled,
               server_action_task := Executor_cancelled\<rparr>)"

definition stop_outcome :: "'t server outcome \<Rightarrow> 't server outcome" where
  "stop_outcome joined =
     (case joined of
        Pending \<Rightarrow> Pending
      | Returned s' \<Rightarrow>
          (case evaluator_task s' of
             Evaluator_failed e \<Rightarrow> Raised (Task_exception e) (stop_finally s')
           | _ \<Rightarrow> Returned (stop_finally s'))
      | Raised x s' \<Rightarrow>
          (case evaluator_task s' of
             Evaluator_failed e \<Rightarrow> Raised (Task_exception e) (stop_finally s')
           | _ \<Rightarrow> Raised x (stop_finally s')))"

definition stop :: "'t server \<Rightarrow> 't server outcome" where
  "stop s = stop_outcome (join s)"

section \<open>Executions: one run of the event loop at a time\<close>

text \<open>
  The event loop is cooperative: between two suspension points a task, a
  callback or the test's own code runs alone.  A label names what runs next:
  a call made by the test, something the peer does, or one of the two
  background tasks being resumed, with what the transport or the clock hands
  it (the result of a write or of a read, a timeout).  \<open>fire\<close> is \<open>None\<close> where
  the label cannot happen in that state (the task is blocked, or the caller is
  still waiting).  A label carries one pass of a task's loop body, and a wait
  wrapped in \<open>wait_for\<close> always counts as a suspension, so every schedule of
  the event loop is a run; a call of \<open>join\<close> or \<open>stop\<close> is taken at the moment it
  can complete.
\<close>

datatype 't label =
    Call_expect_connect 't
  | Call_expect_bytes bytes 't
  | Call_send_bytes bytes
  | Call_expect_disconnect 't
  | Call_join
  | Call_stop
  | Client_connects stream stream
  | Client_reads bytes
  | Client_waits_closed
  | Evaluator_runs
  | Evaluator_times_out
  | Executor_runs write_result
  | Executor_completes read_result

definition declared :: "'t server \<Rightarrow> py_exception + 't server \<Rightarrow> 't server" where
  "declared s r = (case r of Inl e \<Rightarrow> s | Inr s' \<Rightarrow> s')"

definition called :: "'t server outcome \<Rightarrow> 't server option" where
  "called r = (case r of Pending \<Rightarrow> None | Returned s' \<Rightarrow> Some s' | Raised e s' \<Rightarrow> Some s')"

fun fire :: "'t label \<Rightarrow> 't server \<Rightarrow> 't server option" where
  "fire (Call_expect_connect timeout) s = Some (declared s (expect_connect timeout s))"
| "fire (Call_expect_bytes expected_bytes timeout) s =
     Some (declared s (expect_bytes expected_bytes timeout s))"
| "fire (Call_send_bytes data) s = Some (declared s (send_bytes data s))"
| "fire (Call_expect_disconnect timeout) s = Some (declared s (expect_disconnect timeout s))"
| "fire Call_join s = called (join s)"
| "fire Call_stop s = called (stop s)"
| "fire (Client_connects r w) s = Some (handle_client_connection r w s)"
| "fire (Client_reads data) s = Some (client_read data s)"
| "fire Client_waits_closed s = Some (client_writer_wait_closed s)"
| "fire Evaluator_runs s =
     (case evaluator_task s of
        Awaiting_expectation \<Rightarrow> evaluate_expectations s
      | Evaluating expectation \<Rightarrow>
          (case resume_evaluate expectation s of
             None \<Rightarrow> None
           | Some (r, s') \<Rightarrow> Some (evaluated r s'))
      | Evaluator_cancelled \<Rightarrow> None
      | Evaluator_failed e \<Rightarrow> None)"
| "fire Evaluator_times_out s =
     (case evaluator_task s of
        Evaluating expectation \<Rightarrow>
          (case timeout_evaluate expectation of
             None \<Rightarrow> None
           | Some r \<Rightarrow> Some (evaluated r s))
      | _ \<Rightarrow> None)"
| "fire (Executor_runs wr) s =
     (case server_action_task s of
        Awaiting_action \<Rightarrow> execute_server_actions wr s
      | _ \<Rightarrow> None)"
| "fire (Executor_completes rr) s =
     (case server_action_task s of
        Executing server_action \<Rightarrow>
          (case server_action_completes server_action rr of
             None \<Rightarrow> None
           | Some r \<Rightarrow> Some (publish r (s\<lparr>server_action_task := Awaiting_action\<rparr>)))
      | _ \<Rightarrow> None)"

fun run :: "'t label list \<Rightarrow> 't server \<Rightarrow> 't server option" where
  "run [] s = Some s"
| "run (l # ls) s = (case fire l s of None \<Rightarrow> None | Some s' \<Rightarrow> run ls s')"

section \<open>What holds in every state the system reaches\<close>

text \<open>
  The three steps whose \<open>evaluate\<close> is a bare \<open>server_event_queue.get()\<close> are also
  the three whose action hands an event to the executor.  The events that come
  from the acceptance handler instead are the two connection events.
\<close>

fun awaits_event :: "'t step \<Rightarrow> bool" where
  "awaits_event (ExpectBytes expected_bytes timeout) = True"
| "awaits_event (ExpectReadZeroBytes timeout) = True"
| "awaits_event (ExpectClientReadAllSentBytes timeout) = True"
| "awaits_event expectation = False"

fun connection_event :: "event \<Rightarrow> bool" where
  "connection_event ClientConnectedEvent = True"
| "connection_event SecondClientConnectionAttempted = True"
| "connection_event server_event = False"

text \<open>
  Events owed to the evaluator: one for each queued action that will produce
  one, one for the action being executed, and the action events already
  published and not yet taken.
\<close>

definition owed :: "'t server \<Rightarrow> nat" where
  "owed s =
     length (filter awaits_event (server_actions s))
     + (case server_action_task s of Executing server_action \<Rightarrow> 1 | _ \<Rightarrow> 0)
     + length (filter (\<lambda>server_event. \<not> connection_event server_event) (server_event_queue s))"

text \<open>
  The steps whose \<open>evaluate\<close> can suspend (all but \<open>SendBytes\<close>), and the actions
  that suspend in \<open>wait_for\<close> (the two that read from the transport).
\<close>

fun evaluate_suspends :: "'t step \<Rightarrow> bool" where
  "evaluate_suspends (SendBytes data) = False"
| "evaluate_suspends expectation = True"

fun action_suspends :: "'t step \<Rightarrow> bool" where
  "action_suspends (ExpectBytes expected_bytes timeout) = True"
| "action_suspends (ExpectReadZeroBytes timeout) = True"
| "action_suspends server_action = False"

fun in_progress_suspends :: "'t executor_pc \<Rightarrow> bool" where
  "in_progress_suspends (Executing server_action) = action_suspends server_action"
| "in_progress_suspends task = True"

text \<open>
  \<open>lockstep\<close>: the queue's counter of unfinished tasks counts the queued steps
  and the one being evaluated, which is a step whose \<open>evaluate\<close> can suspend; a
  cancelled evaluator means \<open>stop\<close> got past \<open>join\<close>, and the evaluator never
  dies of an exception; an action in progress is a
  reading one, and the two tasks are cancelled together;
  the failure flag is only ever set with an error recorded; while no error is
  recorded the evaluator is owed exactly the event of the step it is
  evaluating; and once an error is recorded a suspended \<open>evaluate\<close> is one that
  waits for an event and has one waiting in the queue.
\<close>

definition lockstep :: "'t server \<Rightarrow> bool" where
  "lockstep s =
     ((case evaluator_task s of
         Awaiting_expectation \<Rightarrow> unfinished_tasks s = length (expecations_queue s)
       | Evaluating expectation \<Rightarrow>
           unfinished_tasks s = length (expecations_queue s) + 1 \<and>
           evaluate_suspends expectation
       | Evaluator_cancelled \<Rightarrow>
           stopped s \<and>
           (if join_already_failed s then True
            else unfinished_tasks s = 0 \<and> expecations_queue s = [])
       | Evaluator_failed e \<Rightarrow> False)
      \<and> in_progress_suspends (server_action_task s)
      \<and> (server_action_task s = Executor_cancelled) = (evaluator_task s = Evaluator_cancelled)
      \<and> (if join_already_failed s then errors s \<noteq> [] else True)
      \<and> (if errors s = [] then
            owed s =
              (case evaluator_task s of
                 Evaluating expectation \<Rightarrow> if awaits_event expectation then 1 else 0
               | _ \<Rightarrow> 0)
          else
            (case evaluator_task s of
               Evaluating expectation \<Rightarrow>
                 awaits_event expectation \<and> server_event_queue s \<noteq> []
             | _ \<Rightarrow> True)))"

text \<open>
  The labels that are moves of the two tasks (with whatever the transport or
  the clock hands them), as opposed to calls of the test and acts of the peer.
  \<open>work_left\<close> bounds how many such moves remain before the next call.
\<close>

fun engine_move :: "'t label \<Rightarrow> bool" where
  "engine_move Evaluator_runs = True"
| "engine_move Evaluator_times_out = True"
| "engine_move (Executor_runs wr) = True"
| "engine_move (Executor_completes rr) = True"
| "engine_move l = False"

definition work_left :: "'t server \<Rightarrow> nat" where
  "work_left s =
     6 * length (expecations_queue s)
     + (case evaluator_task s of Evaluating expectation \<Rightarrow> 3 | _ \<Rightarrow> 0)
     + 2 * length (server_actions s)
     + (case server_action_task s of Executing server_action \<Rightarrow> 1 | _ \<Rightarrow> 0)"

section \<open>The script of a run and its send payloads\<close>

text \<open>
  The bytes a step asks to send, and those of a list of steps in order.
\<close>

fun payload :: "'t step \<Rightarrow> bytes" where
  "payload (SendBytes data) = data"
| "payload expectation = []"

definition payloads :: "'t step list \<Rightarrow> bytes" where
  "payloads steps = concat (map payload steps)"

text \<open>
  The steps a call declares when it is accepted, and the script of a run: the
  steps declared along it, in order (a call on a stopped server declares none).
\<close>

fun steps_declared :: "'t label \<Rightarrow> 't step list" where
  "steps_declared (Call_expect_connect timeout) = [ExpectConnect timeout]"
| "steps_declared (Call_expect_bytes expected_bytes timeout) = [ExpectBytes expected_bytes timeout]"
| "steps_declared (Call_send_bytes data) = [SendBytes data]"
| "steps_declared (Call_expect_disconnect timeout) =
     [ExpectReadZeroBytes timeout, ExpectClientCalledWriterWaitClosed timeout,
      ExpectClientReadAllSentBytes timeout]"
| "steps_declared l = []"

fun script :: "'t label list \<Rightarrow> 't server \<Rightarrow> 't step list" where
  "script [] s = []"
| "script (l # ls) s =
     (case fire l s of
        None \<Rightarrow> []
      | Some s' \<Rightarrow> (if stopped s then [] else steps_declared l) @ script ls s')"

text \<open>
  A pass of the executor that performs a \<open>SendBytes\<close> action attempts a write;
  \<open>write_succeeds\<close> says that this write, if the label attempts one, does not
  raise (a writer is registered and the transport accepts the bytes), and
  \<open>writes_succeed\<close> says so for every label of a run.
\<close>

definition write_succeeds :: "'t label \<Rightarrow> 't server \<Rightarrow> bool" where
  "write_succeeds l s =
     (case l of
        Executor_runs wr \<Rightarrow>
          (case server_actions s of
             SendBytes data # rest \<Rightarrow>
               (if errors s = [] then writer_write s wr = None else True)
           | _ \<Rightarrow> True)
      | _ \<Rightarrow> True)"

fun writes_succeed :: "'t label list \<Rightarrow> 't server \<Rightarrow> bool" where
  "writes_succeed [] s = True"
| "writes_succeed (l # ls) s =
     (case fire l s of
        None \<Rightarrow> True
      | Some s' \<Rightarrow> write_succeeds l s \<and> writes_succeed ls s')"

text \<open>
  What the sent ledger will hold once everything queued has been sent: the
  ledger, then the payloads of the queued actions, then those of the steps
  still to be evaluated.
\<close>

definition ledger_due :: "'t server \<Rightarrow> bytes" where
  "ledger_due s =
     data_sent_from_server s @ payloads (server_actions s) @ payloads (expecations_queue s)"

section \<open>Unfolding the operations\<close>

lemmas declaration_defs =
  declared_def expect_connect_def expect_bytes_def send_bytes_def expect_disconnect_def
  check_not_stopped_def put_nowait_def

lemmas call_defs = called_def join_def stop_def stop_outcome_def stop_finally_def

lemmas peer_defs = handle_client_connection_def client_read_def client_writer_wait_closed_def

lemmas task_defs =
  evaluate_expectations_def evaluated_def end_of_body_def task_done_def error_def publish_def
  execute_server_actions_def SendBytes_server_action_def Let_def

lemma end_of_body_fields [simp]:
  "connected (end_of_body s) = connected s"
  "errors (end_of_body s) = errors s"
  "join_already_failed (end_of_body s) = join_already_failed s"
  "stopped (end_of_body s) = stopped s"
  "server_event_queue (end_of_body s) = server_event_queue s"
  "server_actions (end_of_body s) = server_actions s"
  "expecations_queue (end_of_body s) = expecations_queue s"
  "server_action_task (end_of_body s) = server_action_task s"
  "reader (end_of_body s) = reader s"
  "writer (end_of_body s) = writer s"
  "client_called_writer_waited_closed (end_of_body s) = client_called_writer_waited_closed s"
  "data_read_by_client (end_of_body s) = data_read_by_client s"
  "data_sent_from_server (end_of_body s) = data_sent_from_server s"
  by (simp_all add: end_of_body_def task_done_def)

lemma end_of_body_counted:
  assumes "0 < unfinished_tasks s"
  shows "end_of_body s =
           s\<lparr>unfinished_tasks := unfinished_tasks s - 1,
             evaluator_task := Awaiting_expectation\<rparr>"
  using assms by (simp add: end_of_body_def task_done_def)

lemma evaluated_fields [simp]:
  "connected (evaluated r s) = connected s"
  "join_already_failed (evaluated r s) = join_already_failed s"
  "stopped (evaluated r s) = stopped s"
  "server_event_queue (evaluated r s) = server_event_queue s"
  "server_actions (evaluated r s) = server_actions s"
  "expecations_queue (evaluated r s) = expecations_queue s"
  "server_action_task (evaluated r s) = server_action_task s"
  "reader (evaluated r s) = reader s"
  "writer (evaluated r s) = writer s"
  "client_called_writer_waited_closed (evaluated r s) = client_called_writer_waited_closed s"
  "data_read_by_client (evaluated r s) = data_read_by_client s"
  "data_sent_from_server (evaluated r s) = data_sent_from_server s"
  by (cases r; simp add: evaluated_def error_def)+

lemma evaluated_errors_eq:
  "errors (evaluated r s) = (case r of Inl e \<Rightarrow> errors s @ [e] | Inr u \<Rightarrow> errors s)"
  by (cases r) (simp_all add: evaluated_def error_def)

lemma evaluated_counted:
  assumes "0 < unfinished_tasks s"
  shows "unfinished_tasks (evaluated r s) = unfinished_tasks s - 1"
    and "evaluator_task (evaluated r s) = Awaiting_expectation"
  using assms by (cases r; simp add: evaluated_def error_def end_of_body_counted)+

section \<open>Connection acceptance is never silent\<close>

text \<open>
  Claim C3.  Whatever the state, the acceptance handler leaves \<open>connected\<close> true
  and puts exactly one event at the back of the event queue:
  \<open>ClientConnectedEvent\<close> when the flag was false (the streams are then
  registered), \<open>SecondClientConnectionAttempted\<close> when it was true (nothing else
  changes, in particular not the registered reader and writer).  A step that
  waits for the peer to close takes that event as its failure, which the
  interpreter reports as a second connection.
\<close>

theorem handle_client_connection_flag:
  fixes s :: "'t server"
  shows "(\<not> connected s \<longrightarrow>
            handle_client_connection r w s =
              s\<lparr>connected := True, reader := Some r, writer := Some w,
                server_event_queue := server_event_queue s @ [ClientConnectedEvent]\<rparr>)
       \<and> (connected s \<longrightarrow>
            handle_client_connection r w s =
              s\<lparr>server_event_queue := server_event_queue s @ [SecondClientConnectionAttempted]\<rparr>
          \<and> reader (handle_client_connection r w s) = reader s
          \<and> writer (handle_client_connection r w s) = writer s)
       \<and> connected (handle_client_connection r w s)
       \<and> server_event_queue (handle_client_connection r w s) =
            server_event_queue s @
              [if connected s then SecondClientConnectionAttempted else ClientConnectedEvent]
       \<and> fire (Client_connects r w) s = Some (handle_client_connection r w s)
       \<and> (connected s \<and> server_event_queue s = [] \<longrightarrow>
            resume_evaluate (ExpectReadZeroBytes timeout) (handle_client_connection r w s) =
              Some (Inl (UnexpectedEventError ReadZeroBytes SecondClientConnectionAttempted),
                    s\<lparr>server_event_queue := []\<rparr>))
       \<and> interpret_error (UnexpectedEventError ReadZeroBytes SecondClientConnectionAttempted) =
            [Lit ''While waiting for client to disconnect a second connection was attempted'']"
  by (simp add: handle_client_connection_def ExpectReadZeroBytes_evaluate_def
                interpret_error_def)

theorem handle_client_connection_flag_witness:
  "handle_client_connection 1 2 (MockTcpServer :: int server) =
     MockTcpServer\<lparr>connected := True, reader := Some 1, writer := Some 2,
       server_event_queue := [ClientConnectedEvent]\<rparr>
   \<and> handle_client_connection 3 4 (handle_client_connection 1 2 (MockTcpServer :: int server)) =
     MockTcpServer\<lparr>connected := True, reader := Some 1, writer := Some 2,
       server_event_queue := [ClientConnectedEvent, SecondClientConnectionAttempted]\<rparr>
   \<and> resume_evaluate (ExpectReadZeroBytes (1::int))
        (handle_client_connection 3 4
          (MockTcpServer\<lparr>connected := True, reader := Some 1, writer := Some 2\<rparr>)) =
       Some (Inl (UnexpectedEventError ReadZeroBytes SecondClientConnectionAttempted),
             MockTcpServer\<lparr>connected := True, reader := Some 1, writer := Some 2\<rparr>)"
  using handle_client_connection_flag
          [where s = "MockTcpServer :: int server" and r = 1 and w = 2 and timeout = "1::int"]
        handle_client_connection_flag
          [where s = "MockTcpServer\<lparr>connected := True, reader := Some 1, writer := Some 2\<rparr>
                      :: int server"
             and r = 3 and w = 4 and timeout = "1::int"]
  by (simp add: MockTcpServer_def handle_client_connection_def)

section \<open>Receiving exact bytes\<close>

text \<open>
  Claim C4.  \<open>ExpectBytes.evaluate\<close> takes the event at the front of the event
  queue and succeeds exactly when it is \<open>BytesReadEvent\<close> with the expected
  bytes.  Every other event raises \<open>UnexpectedEventError\<close> holding the expected
  \<open>BytesReadEvent\<close> and the event that came.  Bytes with other content and a
  timeout are different failures, and the interpreter words them differently.
\<close>

theorem ExpectBytes_evaluate_exact:
  "(ExpectBytes_evaluate B next_event = Inr ()) = (next_event = BytesReadEvent B)
   \<and> (next_event \<noteq> BytesReadEvent B \<longrightarrow>
        ExpectBytes_evaluate B next_event =
          Inl (UnexpectedEventError (BytesReadEvent B) next_event))
   \<and> (B' \<noteq> B \<longrightarrow>
        ExpectBytes_evaluate B (BytesReadEvent B') \<noteq> ExpectBytes_evaluate B TimeoutEvent
      \<and> ExpectBytes_evaluate B (BytesReadEvent B') =
          Inl (UnexpectedEventError (BytesReadEvent B) (BytesReadEvent B'))
      \<and> interpret_error (UnexpectedEventError (BytesReadEvent B) (BytesReadEvent B')) \<noteq>
        interpret_error (UnexpectedEventError (BytesReadEvent B) TimeoutEvent))
   \<and> (server_event_queue s = next_event # q \<longrightarrow>
        begin_evaluate (ExpectBytes B timeout) s =
          Some (ExpectBytes_evaluate B next_event, s\<lparr>server_event_queue := q\<rparr>)
      \<and> resume_evaluate (ExpectBytes B timeout) s =
          Some (ExpectBytes_evaluate B next_event, s\<lparr>server_event_queue := q\<rparr>))"
  by (cases next_event) (auto simp: ExpectBytes_evaluate_def interpret_error_def)

theorem ExpectBytes_evaluate_exact_witness:
  "ExpectBytes_evaluate ''abc'' (BytesReadEvent ''abcd'') =
     Inl (UnexpectedEventError (BytesReadEvent ''abc'') (BytesReadEvent ''abcd''))
   \<and> ExpectBytes_evaluate ''abc'' (BytesReadEvent ''abcd'') \<noteq>
       ExpectBytes_evaluate ''abc'' TimeoutEvent
   \<and> resume_evaluate (ExpectBytes ''abc'' (1::int))
        (MockTcpServer\<lparr>server_event_queue := [BytesReadEvent ''abcd'']\<rparr>) =
       Some (Inl (UnexpectedEventError (BytesReadEvent ''abc'') (BytesReadEvent ''abcd'')),
             MockTcpServer\<lparr>server_event_queue := []\<rparr>)"
  using ExpectBytes_evaluate_exact
          [where B = "''abc''" and next_event = "BytesReadEvent ''abcd''" and B' = "''abcd''"
             and s = "MockTcpServer\<lparr>server_event_queue := [BytesReadEvent ''abcd'']\<rparr>"
             and q = "[]" and timeout = "1::int"]
  by (simp add: MockTcpServer_def ExpectBytes_evaluate_def)

section \<open>Receiving until the peer closes\<close>

text \<open>
  Claim C5.  \<open>ExpectReadZeroBytes.server_action\<close> turns a read of at least one
  byte into \<open>BytesReadEvent\<close> with those bytes, a read of zero bytes and a
  \<open>ConnectionResetError\<close> alike into \<open>ReadZeroBytes\<close>, and the elapsed timeout
  into \<open>TimeoutEvent\<close>; each of the three events comes from its own cause only,
  and no other event is ever returned (any other exception of the read leaves
  the action as it came).  \<open>evaluate\<close> succeeds exactly on \<open>ReadZeroBytes\<close>.
\<close>

theorem ExpectReadZeroBytes_outcomes:
  "(received \<noteq> [] \<longrightarrow>
      ExpectReadZeroBytes_server_action (Received received) = Inr (Some (BytesReadEvent received)))
   \<and> ExpectReadZeroBytes_server_action (Received []) = Inr (Some ReadZeroBytes)
   \<and> ExpectReadZeroBytes_server_action (Read_raises ConnectionResetError) = Inr (Some ReadZeroBytes)
   \<and> ExpectReadZeroBytes_server_action (Read_raises TimeoutError) = Inr (Some TimeoutEvent)
   \<and> (ExpectReadZeroBytes_server_action rr = Inr (Some (BytesReadEvent data)) \<longleftrightarrow>
        rr = Received data \<and> data \<noteq> [])
   \<and> (ExpectReadZeroBytes_server_action rr = Inr (Some ReadZeroBytes) \<longleftrightarrow>
        rr = Received [] \<or> rr = Read_raises ConnectionResetError)
   \<and> (ExpectReadZeroBytes_server_action rr = Inr (Some TimeoutEvent) \<longleftrightarrow>
        rr = Read_raises TimeoutError)
   \<and> (ExpectReadZeroBytes_server_action rr = Inr server_event \<longrightarrow>
        server_event \<in> {Some ReadZeroBytes, Some TimeoutEvent}
        \<or> (\<exists>data. data \<noteq> [] \<and> server_event = Some (BytesReadEvent data)))
   \<and> (e \<noteq> TimeoutError \<and> e \<noteq> ConnectionResetError \<longrightarrow>
        ExpectReadZeroBytes_server_action (Read_raises e) = Inl e)
   \<and> (ExpectReadZeroBytes_evaluate next_event = Inr ()) = (next_event = ReadZeroBytes)
   \<and> (next_event \<noteq> ReadZeroBytes \<longrightarrow>
        ExpectReadZeroBytes_evaluate next_event =
          Inl (UnexpectedEventError ReadZeroBytes next_event))"
  by (cases e)
     (auto simp: ExpectReadZeroBytes_server_action_def ExpectReadZeroBytes_evaluate_def
           split: read_result.splits exn.splits if_splits)

theorem ExpectReadZeroBytes_outcomes_witness:
  "ExpectReadZeroBytes_server_action (Received ''x'') = Inr (Some (BytesReadEvent ''x''))
   \<and> ExpectReadZeroBytes_server_action (Read_raises AttributeError) = Inl AttributeError
   \<and> ExpectReadZeroBytes_evaluate (BytesReadEvent ''x'') =
       Inl (UnexpectedEventError ReadZeroBytes (BytesReadEvent ''x''))"
  using ExpectReadZeroBytes_outcomes
          [where received = "''x''" and rr = "Received ''x''" and data = "''x''"
             and server_event = "Some (BytesReadEvent ''x'')"
             and next_event = "BytesReadEvent ''x''" and e = AttributeError]
  by simp

section \<open>Asserting that the peer read everything\<close>

text \<open>
  Claim C6.  When the read ledger is a prefix of the sent ledger, say
  \<open>sent = read @ unread\<close>, \<open>ExpectClientReadAllSentBytes.server_action\<close> returns
  \<open>NoRemainingSentData\<close> exactly when the two ledgers are equal and otherwise
  \<open>UnreadSentBytes\<close> carrying \<open>unread\<close>, the sent bytes without the read prefix.
  \<open>evaluate\<close> raises \<open>UnexpectedEventError\<close> on every event but
  \<open>NoRemainingSentData\<close>.
\<close>

theorem ExpectClientReadAllSentBytes_ledgers:
  fixes s :: "'t server"
  assumes "data_sent_from_server s = data_read_by_client s @ unread"
  shows "(ExpectClientReadAllSentBytes_server_action timeout s = Inr (Some NoRemainingSentData)
            \<longleftrightarrow> data_read_by_client s = data_sent_from_server s)
       \<and> (data_read_by_client s \<noteq> data_sent_from_server s \<longrightarrow>
            ExpectClientReadAllSentBytes_server_action timeout s =
              Inr (Some (UnreadSentBytes unread)))
       \<and> unread = drop (length (data_read_by_client s)) (data_sent_from_server s)
       \<and> (ExpectClientReadAllSentBytes_evaluate next_event = Inr ()) =
            (next_event = NoRemainingSentData)
       \<and> (next_event \<noteq> NoRemainingSentData \<longrightarrow>
            ExpectClientReadAllSentBytes_evaluate next_event =
              Inl (UnexpectedEventError NoRemainingSentData next_event))"
  using assms
  by (auto simp: ExpectClientReadAllSentBytes_server_action_def
                 ExpectClientReadAllSentBytes_try_def startswith_def
                 ExpectClientReadAllSentBytes_evaluate_def Let_def)

theorem ExpectClientReadAllSentBytes_ledgers_witness:
  "ExpectClientReadAllSentBytes_server_action (1::int)
     (MockTcpServer\<lparr>data_read_by_client := ''a'', data_sent_from_server := ''abc''\<rparr>) =
     Inr (Some (UnreadSentBytes ''bc''))
   \<and> ExpectClientReadAllSentBytes_evaluate (UnreadSentBytes ''bc'') =
       Inl (UnexpectedEventError NoRemainingSentData (UnreadSentBytes ''bc''))"
proof -
  have h: "data_sent_from_server
             (MockTcpServer\<lparr>data_read_by_client := ''a'', data_sent_from_server := ''abc''\<rparr>
              :: int server) =
           data_read_by_client
             (MockTcpServer\<lparr>data_read_by_client := ''a'', data_sent_from_server := ''abc''\<rparr>
              :: int server) @ ''bc''"
    by simp
  show ?thesis
    using ExpectClientReadAllSentBytes_ledgers
            [OF h, where timeout = "1::int" and next_event = "UnreadSentBytes ''bc''"]
    by (simp add: MockTcpServer_def)
qed

text \<open>
  Claim C10.  The \<open>try\<close> block of \<open>ExpectClientReadAllSentBytes.server_action\<close>
  never raises \<open>TimeoutError\<close>, so the handler never runs: the action is its
  \<open>try\<close> block, never returns \<open>TimeoutEvent\<close>, and is the same for every stored
  timeout.  It completes inside the executor pass that starts it (the executor
  never waits for it), and \<open>evaluate\<close> has no timeout branch and does not look
  at the stored timeout either.
\<close>

theorem ExpectClientReadAllSentBytes_timeout_unused:
  fixes s :: "'t server"
  shows "ExpectClientReadAllSentBytes_try s \<noteq> Inl TimeoutError
       \<and> ExpectClientReadAllSentBytes_server_action timeout s = ExpectClientReadAllSentBytes_try s
       \<and> ExpectClientReadAllSentBytes_server_action timeout s \<noteq> Inr (Some TimeoutEvent)
       \<and> ExpectClientReadAllSentBytes_server_action timeout s =
           ExpectClientReadAllSentBytes_server_action timeout' s
       \<and> server_action_completes (ExpectClientReadAllSentBytes timeout) rr = None
       \<and> timeout_evaluate (ExpectClientReadAllSentBytes timeout) = None
       \<and> evaluate (ExpectClientReadAllSentBytes timeout) next_event =
           evaluate (ExpectClientReadAllSentBytes timeout') next_event
       \<and> execute_server_actions wr (s\<lparr>server_actions := ExpectClientReadAllSentBytes timeout # rest\<rparr>) =
           execute_server_actions wr (s\<lparr>server_actions := ExpectClientReadAllSentBytes timeout' # rest\<rparr>)
       \<and> map_option server_action_task
           (execute_server_actions wr (s\<lparr>server_actions := ExpectClientReadAllSentBytes timeout # rest\<rparr>)) =
           Some (server_action_task s)"
  by (auto simp: ExpectClientReadAllSentBytes_server_action_def
                 ExpectClientReadAllSentBytes_try_def execute_server_actions_def Let_def
                 publish_def error_def
           split: sum.splits exn.splits option.splits)

theorem ExpectClientReadAllSentBytes_timeout_unused_witness:
  "ExpectClientReadAllSentBytes_server_action (0::int)
     (MockTcpServer\<lparr>data_read_by_client := ''a'', data_sent_from_server := ''abc''\<rparr>) =
   ExpectClientReadAllSentBytes_server_action (1000::int)
     (MockTcpServer\<lparr>data_read_by_client := ''a'', data_sent_from_server := ''abc''\<rparr>)
   \<and> ExpectClientReadAllSentBytes_server_action (0::int)
     (MockTcpServer\<lparr>data_read_by_client := ''a'', data_sent_from_server := ''abc''\<rparr>) =
     Inr (Some (UnreadSentBytes ''bc''))"
  using ExpectClientReadAllSentBytes_timeout_unused
          [where s = "MockTcpServer\<lparr>data_read_by_client := ''a'', data_sent_from_server := ''abc''\<rparr>"
             and timeout = "0::int" and timeout' = "1000::int"]
  by (simp add: MockTcpServer_def ExpectClientReadAllSentBytes_server_action_def
                ExpectClientReadAllSentBytes_try_def startswith_def)

section \<open>Sending bytes\<close>

text \<open>
  Claim C7.  \<open>SendBytes.server_action\<close> returns \<open>None\<close> for every payload and every
  behaviour of the write, raising included, and leaves the error list and the
  event queue alone; a pass of the executor over a queued \<open>SendBytes\<close> action
  therefore records no error and publishes no event.  \<open>SendBytes.evaluate\<close>
  returns without looking at anything, and the evaluator records no error for it.
\<close>

theorem SendBytes_never_yields_event:
  fixes s :: "'t server"
  shows "fst (SendBytes_server_action data wr s) = Inr None
       \<and> errors (snd (SendBytes_server_action data wr s)) = errors s
       \<and> server_event_queue (snd (SendBytes_server_action data wr s)) = server_event_queue s
       \<and> (server_actions s = SendBytes data # rest \<longrightarrow>
            (\<exists>s'. execute_server_actions wr s = Some s'
                \<and> errors s' = errors s
                \<and> server_event_queue s' = server_event_queue s
                \<and> server_actions s' = rest
                \<and> server_action_task s' = server_action_task s))
       \<and> SendBytes_evaluate = Inr ()
       \<and> evaluate (SendBytes data) next_event = Inr ()
       \<and> begin_evaluate (SendBytes data) s = Some (Inr (), s)
       \<and> errors (evaluated (evaluate (SendBytes data) next_event) s) = errors s"
  by (auto simp: SendBytes_server_action_def SendBytes_evaluate_def execute_server_actions_def
                 publish_def evaluated_errors_eq Let_def
           split: option.splits)

theorem SendBytes_never_yields_event_witness:
  "execute_server_actions (Some (OtherException ''BrokenPipeError''))
     (MockTcpServer\<lparr>writer := Some 2, server_actions := [SendBytes ''abc'' :: int step]\<rparr>) =
   Some (MockTcpServer\<lparr>writer := Some 2, server_actions := []\<rparr>)"
  using SendBytes_never_yields_event
          [where s = "MockTcpServer\<lparr>writer := Some 2, server_actions := [SendBytes ''abc'' :: int step]\<rparr>"
             and data = "''abc''" and rest = "[]"
             and wr = "Some (OtherException ''BrokenPipeError'')"]
  by (simp add: MockTcpServer_def execute_server_actions_def SendBytes_server_action_def
                writer_write_def publish_def)

section \<open>Declaring a disconnect\<close>

text \<open>
  Claim C9, as stated, fails after teardown: \<open>stop\<close> on a fresh server returns and
  leaves \<open>stopped\<close> set, and \<open>expect_disconnect\<close> then raises
  "Fixture is stopped" and queues nothing.
\<close>

theorem expect_disconnect_stopped_counterexample:
  "stop (MockTcpServer :: int server) = Returned (stop_finally MockTcpServer)
   \<and> expect_disconnect 1 (stop_finally (MockTcpServer :: int server)) =
       Inl (Exception [Lit ''Fixture is stopped''])
   \<and> fire (Call_expect_disconnect 1) (stop_finally (MockTcpServer :: int server)) =
       Some (stop_finally MockTcpServer)
   \<and> expecations_queue (stop_finally (MockTcpServer :: int server)) = []"
  by (simp add: stop_def stop_outcome_def join_def MockTcpServer_def stop_finally_def
                expect_disconnect_def check_not_stopped_def declared_def called_def)

text \<open>
  Claim C9, amended.  On a server that is not stopped, \<open>expect_disconnect\<close> puts
  exactly three steps at the back of the expectation queue, next to each other
  and in this order: \<open>ExpectReadZeroBytes\<close>, \<open>ExpectClientCalledWriterWaitClosed\<close>,
  \<open>ExpectClientReadAllSentBytes\<close>, each with the caller's timeout (and three more
  tasks are unfinished).  On a stopped server it raises and changes nothing.
\<close>

theorem expect_disconnect_three_steps:
  fixes s :: "'t server"
  shows "(\<not> stopped s \<longrightarrow>
           expect_disconnect timeout s =
             Inr (s\<lparr>expecations_queue := expecations_queue s @
                      [ExpectReadZeroBytes timeout,
                       ExpectClientCalledWriterWaitClosed timeout,
                       ExpectClientReadAllSentBytes timeout],
                    unfinished_tasks := unfinished_tasks s + 3\<rparr>))
       \<and> (stopped s \<longrightarrow>
           expect_disconnect timeout s = Inl (Exception [Lit ''Fixture is stopped''])
         \<and> fire (Call_expect_disconnect timeout) s = Some s)"
  by (simp add: expect_disconnect_def check_not_stopped_def put_nowait_def declared_def)

theorem expect_disconnect_three_steps_witness:
  "expect_disconnect (5::int) (MockTcpServer\<lparr>expecations_queue := [SendBytes ''x''], unfinished_tasks := 1\<rparr>) =
     Inr (MockTcpServer\<lparr>expecations_queue :=
              [SendBytes ''x'', ExpectReadZeroBytes 5, ExpectClientCalledWriterWaitClosed 5,
               ExpectClientReadAllSentBytes 5],
            unfinished_tasks := 4\<rparr>)
   \<and> expect_disconnect (5::int) (stop_finally MockTcpServer) =
       Inl (Exception [Lit ''Fixture is stopped''])"
  using expect_disconnect_three_steps
          [where s = "MockTcpServer\<lparr>expecations_queue := [SendBytes ''x''], unfinished_tasks := 1\<rparr>"
             and timeout = "5::int"]
        expect_disconnect_three_steps
          [where s = "stop_finally (MockTcpServer :: int server)" and timeout = "5::int"]
  by (simp add: MockTcpServer_def stop_finally_def)

section \<open>The join protocol\<close>

lemma begin_evaluate_flag:
  "begin_evaluate e s = Some (r, s') \<Longrightarrow> join_already_failed s' = join_already_failed s"
  by (cases e) (auto split: list.splits)

lemma resume_evaluate_flag:
  "resume_evaluate e s = Some (r, s') \<Longrightarrow> join_already_failed s' = join_already_failed s"
  by (cases e) (auto split: list.splits if_splits)

lemma fire_join_already_failed:
  "fire l s = Some s' \<Longrightarrow> join_already_failed s \<Longrightarrow> join_already_failed s'"
  by (cases l)
     (auto simp: declaration_defs call_defs peer_defs task_defs
           dest: begin_evaluate_flag resume_evaluate_flag
           split: list.splits option.splits sum.splits if_splits evaluator_pc.splits
                  executor_pc.splits step.splits prod.splits)

lemma run_join_already_failed:
  "run ls s = Some s' \<Longrightarrow> join_already_failed s \<Longrightarrow> join_already_failed s'"
  by (induction ls arbitrary: s) (auto split: option.splits dest: fire_join_already_failed)

text \<open>
  Claim C2.  A first \<open>join\<close> (the flag is not set) on a drained queue raises
  exactly when \<open>errors\<close> is not empty, and what it raises is the interpreter's
  message for the first error, whatever came later.  A \<open>join\<close> that raises sets
  \<open>join_already_failed\<close>; with the flag set \<open>join\<close> returns at once, and no run
  of the system ever clears the flag, so every later \<open>join\<close> returns at once.
\<close>

theorem join_raises_first_error:
  fixes s :: "'t server"
  shows "(\<not> join_already_failed s \<and> unfinished_tasks s = 0 \<longrightarrow>
            ((\<exists>e s'. join s = Raised e s') \<longleftrightarrow> errors s \<noteq> []))
       \<and> (\<not> join_already_failed s \<and> unfinished_tasks s = 0 \<and> errors s = first_error # later \<longrightarrow>
            join s = Raised (Exception (interpret_error first_error))
                       (s\<lparr>join_already_failed := True\<rparr>))
       \<and> (join s = Raised e s' \<longrightarrow>
            join_already_failed s' \<and> join s' = Returned s'
            \<and> e = Exception (interpret_error (hd (errors s))) \<and> errors s \<noteq> [])
       \<and> (join_already_failed s \<longrightarrow> join s = Returned s)
       \<and> (join_already_failed s \<and> run ls s = Some s'' \<longrightarrow>
            join_already_failed s'' \<and> join s'' = Returned s'')"
proof -
  have "join_already_failed s \<and> run ls s = Some s'' \<longrightarrow>
          join_already_failed s'' \<and> join s'' = Returned s''"
    using run_join_already_failed [of ls s s''] by (auto simp: join_def)
  moreover have "join s = Raised e s' \<longrightarrow>
            join_already_failed s' \<and> join s' = Returned s'
            \<and> e = Exception (interpret_error (hd (errors s))) \<and> errors s \<noteq> []"
    by (auto simp: join_def split: if_splits list.splits)
  moreover have "\<not> join_already_failed s \<and> unfinished_tasks s = 0 \<longrightarrow>
            ((\<exists>e s'. join s = Raised e s') \<longleftrightarrow> errors s \<noteq> [])"
    by (auto simp: join_def split: if_splits list.splits)
  ultimately show ?thesis by (simp add: join_def)
qed

theorem join_raises_first_error_witness:
  "join (MockTcpServer\<lparr>errors := [AttributeError,
            UnexpectedEventError (BytesReadEvent ''hi'') (ExceptionEvent AttributeError)]\<rparr>
          :: int server) =
     Raised (Exception [Lit ''Cannot interpret '', Fmt_exn AttributeError])
       (MockTcpServer\<lparr>errors := [AttributeError,
            UnexpectedEventError (BytesReadEvent ''hi'') (ExceptionEvent AttributeError)],
          join_already_failed := True\<rparr>)
   \<and> run [Call_send_bytes ''x'', Evaluator_runs, Call_join]
       (MockTcpServer\<lparr>errors := [AttributeError,
            UnexpectedEventError (BytesReadEvent ''hi'') (ExceptionEvent AttributeError)],
          join_already_failed := True\<rparr> :: int server) =
     Some (MockTcpServer\<lparr>errors := [AttributeError,
            UnexpectedEventError (BytesReadEvent ''hi'') (ExceptionEvent AttributeError)],
          join_already_failed := True\<rparr>)"
  using join_raises_first_error
          [where s = "MockTcpServer\<lparr>errors := [AttributeError,
                        UnexpectedEventError (BytesReadEvent ''hi'') (ExceptionEvent AttributeError)]\<rparr>
                      :: int server"
             and first_error = AttributeError
             and later = "[UnexpectedEventError (BytesReadEvent ''hi'') (ExceptionEvent AttributeError)]"
             and e = "Exception [Lit ''Cannot interpret '', Fmt_exn AttributeError]"
             and s' = "MockTcpServer\<lparr>errors := [AttributeError,
                        UnexpectedEventError (BytesReadEvent ''hi'') (ExceptionEvent AttributeError)],
                        join_already_failed := True\<rparr>"]
        join_raises_first_error
          [where s = "MockTcpServer\<lparr>errors := [AttributeError,
                        UnexpectedEventError (BytesReadEvent ''hi'') (ExceptionEvent AttributeError)],
                        join_already_failed := True\<rparr> :: int server"
             and ls = "[Call_send_bytes ''x'', Evaluator_runs]"
             and s'' = "MockTcpServer\<lparr>errors := [AttributeError,
                        UnexpectedEventError (BytesReadEvent ''hi'') (ExceptionEvent AttributeError)],
                        join_already_failed := True\<rparr>"]
  by (simp add: MockTcpServer_def interpret_error_def cannot_interpret_def declaration_defs
                call_defs task_defs)

section \<open>The lockstep invariant\<close>

text \<open>
  \<open>lockstep\<close> holds of a fresh server and is kept by everything that can run:
  the test's calls, the peer, and each resumption of the two tasks.
\<close>

lemma lockstep_init: "lockstep MockTcpServer"
  by (simp add: lockstep_def MockTcpServer_def owed_def)

lemma join_cases:
  assumes "called (join s) = Some s'"
  shows "(s' = s \<and> (join_already_failed s \<or> (unfinished_tasks s = 0 \<and> errors s = [])))
       \<or> (s' = s\<lparr>join_already_failed := True\<rparr> \<and> errors s \<noteq> [] \<and> unfinished_tasks s = 0)"
  using assms by (auto simp: called_def join_def split: if_splits list.splits)

lemma lockstep_flag:
  assumes "lockstep s" "errors s \<noteq> []"
  shows "lockstep (s\<lparr>join_already_failed := True\<rparr>)"
  using assms by (cases "evaluator_task s") (simp_all add: lockstep_def owed_def)

lemma lockstep_join:
  assumes "lockstep s" "called (join s) = Some s'"
  shows "lockstep s'"
  using join_cases [OF assms(2)] assms(1) lockstep_flag by auto

lemma lockstep_stop_finally:
  assumes "lockstep s" "join_already_failed s \<or> (unfinished_tasks s = 0 \<and> errors s = [])"
  shows "lockstep (stop_finally s)"
proof (cases "join_already_failed s")
  case True
  with assms(1) show ?thesis
    by (cases "evaluator_task s") (simp_all add: lockstep_def stop_finally_def)
next
  case False
  with assms(2) have u: "unfinished_tasks s = 0" and e: "errors s = []" by auto
  show ?thesis
  proof (cases "evaluator_task s")
    case Awaiting_expectation
    with assms(1) u e False show ?thesis
      by (cases "server_action_task s") (simp_all add: lockstep_def stop_finally_def owed_def)
  next
    case (Evaluating x)
    with assms(1) u show ?thesis by (simp add: lockstep_def)
  next
    case Evaluator_cancelled
    with assms(1) u e False show ?thesis
      by (cases "server_action_task s") (simp_all add: lockstep_def stop_finally_def owed_def)
  next
    case (Evaluator_failed x)
    with assms(1) show ?thesis by (simp add: lockstep_def)
  qed
qed

lemma stop_cases:
  assumes "called (stop s) = Some s'"
  shows "\<exists>s1. called (join s) = Some s1 \<and> s' = stop_finally s1"
  using assms
  by (auto simp: called_def stop_def stop_outcome_def split: outcome.splits evaluator_pc.splits)

lemma lockstep_stop:
  assumes "lockstep s" "called (stop s) = Some s'"
  shows "lockstep s'"
proof -
  from stop_cases [OF assms(2)] obtain s1 where j: "called (join s) = Some s1"
    and s': "s' = stop_finally s1" by blast
  have l1: "lockstep s1" using lockstep_join [OF assms(1) j] .
  from join_cases [OF j] have "join_already_failed s1 \<or> (unfinished_tasks s1 = 0 \<and> errors s1 = [])"
    by auto
  with l1 s' show ?thesis using lockstep_stop_finally by blast
qed

lemma lockstep_declared:
  "lockstep s \<Longrightarrow> lockstep (declared s (expect_connect t s))"
  "lockstep s \<Longrightarrow> lockstep (declared s (expect_bytes b t s))"
  "lockstep s \<Longrightarrow> lockstep (declared s (send_bytes b s))"
  "lockstep s \<Longrightarrow> lockstep (declared s (expect_disconnect t s))"
  by (auto simp: lockstep_def owed_def declaration_defs split: evaluator_pc.splits if_splits)

lemma lockstep_peer:
  "lockstep s \<Longrightarrow> lockstep (handle_client_connection r w s)"
  "lockstep s \<Longrightarrow> lockstep (client_read d s)"
  "lockstep s \<Longrightarrow> lockstep (client_writer_wait_closed s)"
  by (auto simp: lockstep_def owed_def peer_defs split: evaluator_pc.splits if_splits)

lemma evaluate_connection_event:
  "awaits_event e \<Longrightarrow> connection_event ev \<Longrightarrow> \<exists>x. evaluate e ev = Inl x"
  by (cases e; cases ev)
     (auto simp: ExpectBytes_evaluate_def ExpectReadZeroBytes_evaluate_def
                 ExpectClientReadAllSentBytes_evaluate_def)

lemma ExpectConnect_evaluate_ok:
  "ExpectConnect_evaluate ev = Inr u \<Longrightarrow> connection_event ev"
  by (auto simp: ExpectConnect_evaluate_def split: if_splits)

lemma ExpectBytes_server_action_event:
  "ExpectBytes_server_action rr = Inr r \<Longrightarrow> \<exists>ev. r = Some ev \<and> \<not> connection_event ev"
  by (auto simp: ExpectBytes_server_action_def split: read_result.splits exn.splits)

lemma ExpectReadZeroBytes_server_action_event:
  "ExpectReadZeroBytes_server_action rr = Inr r \<Longrightarrow> \<exists>ev. r = Some ev \<and> \<not> connection_event ev"
  by (auto simp: ExpectReadZeroBytes_server_action_def split: read_result.splits exn.splits if_splits)

lemma ExpectClientReadAllSentBytes_server_action_event:
  "ExpectClientReadAllSentBytes_server_action t s = Inr r \<Longrightarrow> \<exists>ev. r = Some ev \<and> \<not> connection_event ev"
  by (auto simp: ExpectClientReadAllSentBytes_server_action_def ExpectClientReadAllSentBytes_try_def Let_def
           split: sum.splits exn.splits if_splits)

text \<open>Publishing the result of an event-producing action.\<close>

lemma publish_cases:
  assumes "\<And>r'. r = Inr r' \<Longrightarrow> \<exists>ev. r' = Some ev \<and> \<not> connection_event ev"
  shows "(\<exists>x. r = Inl x \<and> publish r s =
            s\<lparr>errors := errors s @ [x], server_event_queue := server_event_queue s @ [ExceptionEvent x]\<rparr>)
       \<or> (\<exists>ev. r = Inr (Some ev) \<and> \<not> connection_event ev \<and> publish r s =
            s\<lparr>server_event_queue := server_event_queue s @ [ev]\<rparr>)"
proof (cases r)
  case (Inl x)
  then show ?thesis by (simp add: publish_def error_def)
next
  case (Inr r')
  with assms obtain ev where "r' = Some ev" "\<not> connection_event ev" by blast
  with Inr show ?thesis by (simp add: publish_def)
qed

lemma lockstep_tasks:
  assumes "lockstep s"
  shows "in_progress_suspends (server_action_task s)"
    and "(server_action_task s = Executor_cancelled) = (evaluator_task s = Evaluator_cancelled)"
  using assms by (simp_all add: lockstep_def)

lemma action_suspends_awaits_event:
  "action_suspends a \<Longrightarrow> awaits_event a"
  by (cases a) simp_all

lemma lockstep_published:
  assumes l: "lockstep s"
    and o: "errors s = [] \<longrightarrow> owed s1 + 1 = owed s"
    and f: "evaluator_task s1 = evaluator_task s" "unfinished_tasks s1 = unfinished_tasks s"
           "expecations_queue s1 = expecations_queue s" "stopped s1 = stopped s"
           "join_already_failed s1 = join_already_failed s" "errors s1 = errors s"
           "server_event_queue s1 = server_event_queue s"
           "in_progress_suspends (server_action_task s1)"
           "(server_action_task s1 = Executor_cancelled) = (server_action_task s = Executor_cancelled)"
    and r: "\<And>r'. r = Inr r' \<Longrightarrow> \<exists>ev. r' = Some ev \<and> \<not> connection_event ev"
  shows "lockstep (publish r s1)"
proof -
  from publish_cases [of r s1, OF r]
  consider x where "publish r s1 =
            s1\<lparr>errors := errors s1 @ [x], server_event_queue := server_event_queue s1 @ [ExceptionEvent x]\<rparr>"
    | ev where "\<not> connection_event ev" "publish r s1 =
            s1\<lparr>server_event_queue := server_event_queue s1 @ [ev]\<rparr>"
    by blast
  then show ?thesis
  proof cases
    case 1
    show ?thesis
    proof (cases "errors s = []")
      case True
      with o have "owed s \<ge> 1" by simp
      with l True 1 f show ?thesis
        by (cases "evaluator_task s") (auto simp: lockstep_def split: if_splits)
    next
      case False
      with l 1 f show ?thesis
        by (cases "evaluator_task s") (auto simp: lockstep_def split: if_splits)
    qed
  next
    case 2
    show ?thesis
    proof (cases "errors s = []")
      case True
      with o have "owed s1 + 1 = owed s" by simp
      moreover have "owed (s1\<lparr>server_event_queue := server_event_queue s1 @ [ev]\<rparr>) = owed s1 + 1"
        using 2(1) by (simp add: owed_def)
      ultimately show ?thesis using l True 2 f
        by (cases "evaluator_task s") (auto simp: lockstep_def split: if_splits)
    next
      case False
      with l 2 f show ?thesis
        by (cases "evaluator_task s") (auto simp: lockstep_def split: if_splits)
    qed
  qed
qed

lemma lockstep_completes:
  assumes l: "lockstep s" and t: "server_action_task s = Executing a"
    and c: "server_action_completes a rr = Some r"
  shows "lockstep (publish r (s\<lparr>server_action_task := Awaiting_action\<rparr>))"
proof (rule lockstep_published [OF l])
  show "errors s = [] \<longrightarrow> owed (s\<lparr>server_action_task := Awaiting_action\<rparr>) + 1 = owed s"
    using t by (simp add: owed_def)
  show "\<And>r'. r = Inr r' \<Longrightarrow> \<exists>ev. r' = Some ev \<and> \<not> connection_event ev"
    using c by (cases a)
      (auto dest: ExpectBytes_server_action_event ExpectReadZeroBytes_server_action_event)
qed (use t in simp_all)


lemma lockstep_dequeue_action_unowed:
  assumes l: "lockstep s" and a: "server_actions s = a # rest" and n: "\<not> awaits_event a"
  shows "lockstep (s\<lparr>server_actions := rest\<rparr>)"
  using l a n by (cases "evaluator_task s") (auto simp: lockstep_def owed_def split: if_splits)

lemma lockstep_drop_action:
  assumes l: "lockstep s" and a: "server_actions s = a # rest" and e: "errors s \<noteq> []"
  shows "lockstep (s\<lparr>server_actions := rest\<rparr>)"
  using l a e by (cases "evaluator_task s") (auto simp: lockstep_def split: if_splits)

lemma lockstep_data_sent:
  "lockstep (s\<lparr>data_sent_from_server := d\<rparr>) = lockstep s"
  by (cases "evaluator_task s") (simp_all add: lockstep_def owed_def)

lemma lockstep_start_action:
  assumes l: "lockstep s" and a: "server_actions s = a # rest" and n: "action_suspends a"
    and t: "server_action_task s = Awaiting_action"
  shows "lockstep (s\<lparr>server_actions := rest, server_action_task := Executing a\<rparr>)"
  using l a n t action_suspends_awaits_event [OF n]
  by (cases "evaluator_task s") (auto simp: lockstep_def owed_def split: if_splits)

lemma lockstep_execute_server_actions:
  assumes l: "lockstep s" and t: "server_action_task s = Awaiting_action"
    and x: "execute_server_actions wr s = Some s'"
  shows "lockstep s'"
proof (cases "server_actions s")
  case Nil
  with x show ?thesis by (simp add: execute_server_actions_def Let_def)
next
  case (Cons a rest)
  show ?thesis
  proof (cases "errors s = []")
    case False
    with x Cons have "s' = s\<lparr>server_actions := rest\<rparr>"
      by (simp add: execute_server_actions_def Let_def)
    with lockstep_drop_action [OF l Cons False] show ?thesis by simp
  next
    case True
    have pub: "lockstep (publish r (s\<lparr>server_actions := rest\<rparr>))"
      if "awaits_event a" "\<And>r'. r = Inr r' \<Longrightarrow> \<exists>ev. r' = Some ev \<and> \<not> connection_event ev" for r
    proof (rule lockstep_published [OF l])
      show "errors s = [] \<longrightarrow> owed (s\<lparr>server_actions := rest\<rparr>) + 1 = owed s"
        using Cons that(1) by (simp add: owed_def)
      show "\<And>r'. r = Inr r' \<Longrightarrow> \<exists>ev. r' = Some ev \<and> \<not> connection_event ev"
        using that(2) .
    qed (use lockstep_tasks [OF l] in simp_all)
    show ?thesis
    proof (cases a)
      case (ExpectConnect t0)
      with x Cons True have "s' = s\<lparr>server_actions := rest\<rparr>"
        by (simp add: execute_server_actions_def Let_def publish_def ExpectConnect_server_action_def)
      with lockstep_dequeue_action_unowed [OF l Cons] ExpectConnect show ?thesis by simp
    next
      case (ExpectClientCalledWriterWaitClosed t0)
      with x Cons True have "s' = s\<lparr>server_actions := rest\<rparr>"
        by (simp add: execute_server_actions_def Let_def publish_def
                      ExpectClientCalledWriterWaitClosed_server_action_def)
      with lockstep_dequeue_action_unowed [OF l Cons] ExpectClientCalledWriterWaitClosed
      show ?thesis by simp
    next
      case (SendBytes d)
      with x Cons True have "s' = s\<lparr>server_actions := rest\<rparr>
          \<or> s' = s\<lparr>server_actions := rest,
                   data_sent_from_server := data_sent_from_server s @ d\<rparr>"
        by (cases "writer_write (s\<lparr>server_actions := rest\<rparr>) wr")
           (simp_all add: execute_server_actions_def Let_def publish_def SendBytes_server_action_def)
      with lockstep_dequeue_action_unowed [OF l Cons] SendBytes show ?thesis
        by (auto simp: lockstep_data_sent)
    next
      case (ExpectClientReadAllSentBytes t0)
      with x Cons True have "s' = publish (ExpectClientReadAllSentBytes_server_action t0
                                 (s\<lparr>server_actions := rest\<rparr>)) (s\<lparr>server_actions := rest\<rparr>)"
        by (simp add: execute_server_actions_def Let_def)
      moreover have "lockstep (publish (ExpectClientReadAllSentBytes_server_action t0
                                 (s\<lparr>server_actions := rest\<rparr>)) (s\<lparr>server_actions := rest\<rparr>))"
      proof (rule pub)
        show "awaits_event a" using ExpectClientReadAllSentBytes by simp
      qed (rule ExpectClientReadAllSentBytes_server_action_event)
      ultimately show ?thesis by simp
    next
      case (ExpectBytes b t0)
      show ?thesis
      proof (cases "reader s = None")
        case rn: True
        with x Cons True ExpectBytes
        have "s' = publish (ExpectBytes_server_action (Read_raises AttributeError))
                     (s\<lparr>server_actions := rest\<rparr>)"
          by (simp add: execute_server_actions_def Let_def)
        moreover have "lockstep (publish (ExpectBytes_server_action (Read_raises AttributeError))
                     (s\<lparr>server_actions := rest\<rparr>))"
        proof (rule pub)
          show "awaits_event a" using ExpectBytes by simp
        qed (rule ExpectBytes_server_action_event)
        ultimately show ?thesis by simp
      next
        case rs: False
        with x Cons True ExpectBytes
        have "s' = s\<lparr>server_actions := rest, server_action_task := Executing a\<rparr>"
          by (simp add: execute_server_actions_def Let_def)
        with lockstep_start_action [OF l Cons _ t] ExpectBytes show ?thesis by simp
      qed
    next
      case (ExpectReadZeroBytes t0)
      show ?thesis
      proof (cases "reader s = None")
        case rn: True
        with x Cons True ExpectReadZeroBytes
        have "s' = publish (ExpectReadZeroBytes_server_action (Read_raises AttributeError))
                     (s\<lparr>server_actions := rest\<rparr>)"
          by (simp add: execute_server_actions_def Let_def)
        moreover have "lockstep (publish (ExpectReadZeroBytes_server_action (Read_raises AttributeError))
                     (s\<lparr>server_actions := rest\<rparr>))"
        proof (rule pub)
          show "awaits_event a" using ExpectReadZeroBytes by simp
        qed (rule ExpectReadZeroBytes_server_action_event)
        ultimately show ?thesis by simp
      next
        case rs: False
        with x Cons True ExpectReadZeroBytes
        have "s' = s\<lparr>server_actions := rest, server_action_task := Executing a\<rparr>"
          by (simp add: execute_server_actions_def Let_def)
        with lockstep_start_action [OF l Cons _ t] ExpectReadZeroBytes show ?thesis by simp
      qed
    qed
  qed
qed

lemma begin_evaluate_cases:
  assumes "begin_evaluate e s = Some (r, s3)"
  shows "(\<not> awaits_event e \<and> r = Inr () \<and> s3 = s)
       \<or> (awaits_event e \<and>
           (\<exists>ev q. server_event_queue s = ev # q \<and> r = evaluate e ev
                  \<and> s3 = s\<lparr>server_event_queue := q\<rparr>))"
  using assms by (cases e) (auto simp: SendBytes_evaluate_def split: list.splits)

lemma resume_evaluate_cases:
  assumes "resume_evaluate e s = Some (r, s1)"
  shows "(\<not> awaits_event e \<and> s1 = s \<and> r = Inr ())
       \<or> ((awaits_event e \<or> (\<exists>t. e = ExpectConnect t)) \<and>
           (\<exists>ev q. server_event_queue s = ev # q \<and> r = evaluate e ev
                  \<and> s1 = s\<lparr>server_event_queue := q\<rparr>))"
  using assms
  by (cases e)
     (auto simp: ExpectClientCalledWriterWaitClosed_evaluate_def split: list.splits if_splits)

lemma timeout_evaluate_raises:
  assumes "timeout_evaluate e = Some r"
  shows "\<exists>x. r = Inl x"
  using assms
  by (cases e)
     (auto simp: ExpectConnect_evaluate_def ExpectClientCalledWriterWaitClosed_evaluate_def)

lemma lockstep_evaluated:
  assumes "unfinished_tasks s1 = length (expecations_queue s1) + 1"
    and "join_already_failed s1 \<longrightarrow> errors s1 \<noteq> []"
    and "(\<exists>x. r = Inl x) \<or> (errors s1 = [] \<longrightarrow> owed s1 = 0)"
    and "in_progress_suspends (server_action_task s1)"
    and "server_action_task s1 \<noteq> Executor_cancelled"
  shows "lockstep (evaluated r s1)"
proof -
  have u: "0 < unfinished_tasks s1" using assms(1) by simp
  have "evaluated r s1 =
          (case r of Inl e \<Rightarrow> error e s1 | Inr _ \<Rightarrow> s1)
            \<lparr>unfinished_tasks := unfinished_tasks s1 - 1,
              evaluator_task := Awaiting_expectation\<rparr>"
    using u by (cases r) (simp_all add: evaluated_def end_of_body_counted error_def)
  with assms show ?thesis
    by (cases r) (auto simp: lockstep_def error_def owed_def)
qed

lemma owed_take_event:
  assumes "server_event_queue s = ev # q"
  shows "owed s = owed (s\<lparr>server_event_queue := q\<rparr>) + (if connection_event ev then 0 else 1)"
  using assms by (simp add: owed_def)

lemma lockstep_Evaluating:
  assumes "lockstep s" "evaluator_task s = Evaluating e"
  shows "unfinished_tasks s = length (expecations_queue s) + 1"
    and "join_already_failed s \<longrightarrow> errors s \<noteq> []"
    and "errors s = [] \<longrightarrow> owed s = (if awaits_event e then 1 else 0)"
    and "errors s \<noteq> [] \<longrightarrow> awaits_event e \<and> server_event_queue s \<noteq> []"
    and "in_progress_suspends (server_action_task s)"
    and "server_action_task s \<noteq> Executor_cancelled"
    and "evaluate_suspends e"
  using assms by (auto simp: lockstep_def split: if_splits)

lemma lockstep_Awaiting:
  assumes "lockstep s" "evaluator_task s = Awaiting_expectation"
  shows "unfinished_tasks s = length (expecations_queue s)"
    and "join_already_failed s \<longrightarrow> errors s \<noteq> []"
    and "errors s = [] \<longrightarrow> owed s = 0"
    and "in_progress_suspends (server_action_task s)"
    and "server_action_task s \<noteq> Executor_cancelled"
  using assms by (auto simp: lockstep_def split: if_splits)

lemma lockstep_resumed:
  assumes l: "lockstep s" and t: "evaluator_task s = Evaluating e"
    and x: "resume_evaluate e s = Some (r, s1)"
  shows "lockstep (evaluated r s1)"
proof (rule lockstep_evaluated)
  note E = lockstep_Evaluating [OF l t]
  from resume_evaluate_cases [OF x]
  consider "\<not> awaits_event e" "s1 = s" "r = Inr ()"
    | ev q where "awaits_event e \<or> (\<exists>t. e = ExpectConnect t)" "server_event_queue s = ev # q"
        "r = evaluate e ev" "s1 = s\<lparr>server_event_queue := q\<rparr>"
    by blast
  then have "unfinished_tasks s1 = unfinished_tasks s \<and> expecations_queue s1 = expecations_queue s
      \<and> join_already_failed s1 = join_already_failed s \<and> errors s1 = errors s
      \<and> server_action_task s1 = server_action_task s"
    by cases auto
  with E show "unfinished_tasks s1 = length (expecations_queue s1) + 1"
    and "join_already_failed s1 \<longrightarrow> errors s1 \<noteq> []"
    and "in_progress_suspends (server_action_task s1)"
    and "server_action_task s1 \<noteq> Executor_cancelled" by auto
  show "(\<exists>x. r = Inl x) \<or> (errors s1 = [] \<longrightarrow> owed s1 = 0)"
  proof (cases "errors s = []")
    case False
    with resume_evaluate_cases [OF x] show ?thesis by auto
  next
    case True
    with E have o: "owed s = (if awaits_event e then 1 else 0)" by simp
    from resume_evaluate_cases [OF x]
    consider "\<not> awaits_event e" "s1 = s"
      | ev q where "server_event_queue s = ev # q" "r = evaluate e ev"
          "s1 = s\<lparr>server_event_queue := q\<rparr>"
      by blast
    then show ?thesis
    proof cases
      case 1
      with o show ?thesis by simp
    next
      case (2 ev q)
      show ?thesis
      proof (cases "awaits_event e")
        case ae: True
        show ?thesis
        proof (cases "connection_event ev")
          case True
          with evaluate_connection_event [OF ae] 2(2) show ?thesis by blast
        next
          case False
          with owed_take_event [OF 2(1)] o ae 2(3) show ?thesis by simp
        qed
      next
        case False
        with owed_take_event [OF 2(1)] o 2(3) show ?thesis by (simp split: if_splits)
      qed
    qed
  qed
qed

lemma lockstep_timed_out:
  assumes l: "lockstep s" and t: "evaluator_task s = Evaluating e"
    and x: "timeout_evaluate e = Some r"
  shows "lockstep (evaluated r s)"
  using lockstep_Evaluating [OF l t] timeout_evaluate_raises [OF x]
  by (intro lockstep_evaluated) auto


lemma owed_put_action:
  "owed (s\<lparr>expecations_queue := rest, server_actions := server_actions s @ [e]\<rparr>) =
     owed s + (if awaits_event e then 1 else 0)"
  by (simp add: owed_def)

lemma owed_zero_front:
  assumes "owed s = 0" "server_event_queue s = ev # q"
  shows "connection_event ev"
  using assms by (auto simp: owed_def split: if_splits)

lemma lockstep_evaluate_expectations:
  assumes l: "lockstep s" and t: "evaluator_task s = Awaiting_expectation"
    and x: "evaluate_expectations s = Some s'"
  shows "lockstep s'"
proof (cases "expecations_queue s")
  case Nil
  with x show ?thesis by (simp add: evaluate_expectations_def)
next
  case (Cons e rest)
  note A = lockstep_Awaiting [OF l t]
  show ?thesis
  proof (cases "errors s = []")
    case False
    with x Cons have "s' = end_of_body (s\<lparr>expecations_queue := rest\<rparr>)"
      by (simp add: evaluate_expectations_def Let_def)
    moreover have "0 < unfinished_tasks (s\<lparr>expecations_queue := rest\<rparr>)"
      using A(1) Cons by simp
    ultimately show ?thesis using l t Cons False
      by (simp add: end_of_body_counted) (simp add: lockstep_def owed_def)
  next
    case True
    define s2 where "s2 = s\<lparr>expecations_queue := rest, server_actions := server_actions s @ [e]\<rparr>"
    have o2: "owed s2 = (if awaits_event e then 1 else 0)"
      using A(3) True by (simp add: s2_def owed_put_action)
    have f2: "unfinished_tasks s2 = length (expecations_queue s2) + 1"
      "\<not> join_already_failed s2" "errors s2 = []"
      "evaluator_task s2 = Awaiting_expectation"
      "in_progress_suspends (server_action_task s2)"
      "server_action_task s2 \<noteq> Executor_cancelled"
      using A True Cons t by (auto simp: s2_def)
    show ?thesis
    proof (cases "begin_evaluate e s2")
      case None
      with x Cons True have "s' = s2\<lparr>evaluator_task := Evaluating e\<rparr>"
        by (simp add: evaluate_expectations_def Let_def s2_def)
      moreover have "owed (s2\<lparr>evaluator_task := Evaluating e\<rparr>) = owed s2"
        by (simp add: owed_def)
      moreover have "evaluate_suspends e"
        using None by (cases e) simp_all
      ultimately show ?thesis using o2 f2
        by (simp add: lockstep_def)
    next
      case (Some p)
      obtain r s3 where p: "p = (r, s3)" by (cases p)
      with x Cons True Some have s': "s' = evaluated r s3"
        by (simp add: evaluate_expectations_def Let_def s2_def)
      from Some p have b: "begin_evaluate e s2 = Some (r, s3)" by simp
      from begin_evaluate_cases [OF b]
      consider "\<not> awaits_event e" "r = Inr ()" "s3 = s2"
        | ev q where "awaits_event e" "server_event_queue s2 = ev # q" "r = evaluate e ev"
            "s3 = s2\<lparr>server_event_queue := q\<rparr>"
        by blast
      then show ?thesis
      proof cases
        case 1
        with o2 f2 have "lockstep (evaluated r s3)"
          by (intro lockstep_evaluated) auto
        with s' show ?thesis by simp
      next
        case (2 ev q)
        have "server_event_queue s = ev # q" using 2(2) by (simp add: s2_def)
        with A(3) True have "connection_event ev" by (auto intro: owed_zero_front)
        with evaluate_connection_event [OF 2(1)] 2(3) have "\<exists>x. r = Inl x" by blast
        with f2 2(4) have "lockstep (evaluated r s3)"
          by (intro lockstep_evaluated) auto
        with s' show ?thesis by simp
      qed
    qed
  qed
qed

lemma lockstep_fire:
  assumes l: "lockstep s" and f: "fire lab s = Some s'"
  shows "lockstep s'"
proof (cases lab)
  case (Call_expect_connect t)
  with f l show ?thesis by (auto intro: lockstep_declared)
next
  case (Call_expect_bytes b t)
  with f l show ?thesis by (auto intro: lockstep_declared)
next
  case (Call_send_bytes b)
  with f l show ?thesis by (auto intro: lockstep_declared)
next
  case (Call_expect_disconnect t)
  with f l show ?thesis by (auto intro: lockstep_declared)
next
  case Call_join
  with f l show ?thesis by (auto intro: lockstep_join)
next
  case Call_stop
  with f l show ?thesis by (auto intro: lockstep_stop)
next
  case (Client_connects r w)
  with f l show ?thesis by (auto intro: lockstep_peer)
next
  case (Client_reads d)
  with f l show ?thesis by (auto intro: lockstep_peer)
next
  case Client_waits_closed
  with f l show ?thesis by (auto intro: lockstep_peer)
next
  case Evaluator_runs
  show ?thesis
  proof (cases "evaluator_task s")
    case Awaiting_expectation
    with f l Evaluator_runs show ?thesis by (auto intro: lockstep_evaluate_expectations)
  next
    case (Evaluating e)
    with f l Evaluator_runs show ?thesis
      by (auto intro: lockstep_resumed split: option.splits)
  next
    case Evaluator_cancelled
    with f Evaluator_runs show ?thesis by simp
  next
    case (Evaluator_failed x)
    with f Evaluator_runs show ?thesis by simp
  qed
next
  case Evaluator_times_out
  show ?thesis
  proof (cases "evaluator_task s")
    case (Evaluating e)
    with f l Evaluator_times_out show ?thesis
      by (auto intro: lockstep_timed_out split: option.splits)
  qed (use f Evaluator_times_out in simp_all)
next
  case (Executor_runs wr)
  show ?thesis
  proof (cases "server_action_task s")
    case Awaiting_action
    with f l Executor_runs show ?thesis by (auto intro: lockstep_execute_server_actions)
  qed (use f Executor_runs in simp_all)
next
  case (Executor_completes rr)
  show ?thesis
  proof (cases "server_action_task s")
    case (Executing a)
    with f l Executor_completes show ?thesis
      by (auto intro: lockstep_completes split: option.splits)
  qed (use f Executor_completes in simp_all)
qed

lemma lockstep_run:
  assumes "lockstep s" "run ls s = Some s'"
  shows "lockstep s'"
  using assms
  by (induction ls arbitrary: s) (auto split: option.splits intro: lockstep_fire)

lemma lockstep_reachable:
  assumes "run ls MockTcpServer = Some s"
  shows "lockstep s"
  using lockstep_run [OF lockstep_init assms] .

section \<open>Draining after the first error\<close>

lemma evaluate_expectations_skips:
  assumes "errors s \<noteq> []" "expecations_queue s = expectation # rest"
  shows "evaluate_expectations s = Some (end_of_body (s\<lparr>expecations_queue := rest\<rparr>))"
  using assms by (simp add: evaluate_expectations_def Let_def)

lemma execute_server_actions_drops:
  assumes "errors s \<noteq> []" "server_actions s = server_action # rest"
  shows "execute_server_actions wr s = Some (s\<lparr>server_actions := rest\<rparr>)"
  using assms by (simp add: execute_server_actions_def Let_def)

lemma drain_from_head:
  fixes s :: "'t server"
  assumes "errors s \<noteq> []" "evaluator_task s = Awaiting_expectation"
    and "length (expecations_queue s) \<le> unfinished_tasks s"
  shows "\<exists>s'. run (replicate (length (expecations_queue s)) Evaluator_runs) s = Some s'
            \<and> expecations_queue s' = []
            \<and> unfinished_tasks s' = unfinished_tasks s - length (expecations_queue s)
            \<and> evaluator_task s' = Awaiting_expectation
            \<and> server_actions s' = server_actions s
            \<and> server_event_queue s' = server_event_queue s
            \<and> errors s' = errors s
            \<and> data_sent_from_server s' = data_sent_from_server s"
  using assms
proof (induction "expecations_queue s" arbitrary: s)
  case Nil
  then show ?case by simp
next
  case (Cons e rest)
  let ?s1 = "end_of_body (s\<lparr>expecations_queue := rest\<rparr>)"
  have q: "expecations_queue s = e # rest" using Cons.hyps(2) by simp
  have u: "0 < unfinished_tasks (s\<lparr>expecations_queue := rest\<rparr>)"
    using Cons.prems(3) q by simp
  have f: "fire Evaluator_runs s = Some ?s1"
    using Cons.prems q by (simp add: evaluate_expectations_skips)
  have s1: "unfinished_tasks ?s1 = unfinished_tasks s - 1"
    "evaluator_task ?s1 = Awaiting_expectation"
    by (simp_all add: end_of_body_counted [OF u])
  have "\<exists>s'. run (replicate (length (expecations_queue ?s1)) Evaluator_runs) ?s1 = Some s'
            \<and> expecations_queue s' = []
            \<and> unfinished_tasks s' = unfinished_tasks ?s1 - length (expecations_queue ?s1)
            \<and> evaluator_task s' = Awaiting_expectation
            \<and> server_actions s' = server_actions ?s1
            \<and> server_event_queue s' = server_event_queue ?s1
            \<and> errors s' = errors ?s1
            \<and> data_sent_from_server s' = data_sent_from_server ?s1"
    using Cons.prems q s1 by (intro Cons.hyps(1)) simp_all
  with f q s1 show ?case by auto
qed

lemma drain_error_mode:
  fixes s :: "'t server"
  assumes l: "lockstep s" and e: "errors s \<noteq> []"
    and c: "evaluator_task s \<noteq> Evaluator_cancelled"
  shows "\<exists>s'. run (replicate (unfinished_tasks s) Evaluator_runs) s = Some s'
            \<and> expecations_queue s' = [] \<and> unfinished_tasks s' = 0
            \<and> evaluator_task s' = Awaiting_expectation
            \<and> server_actions s' = server_actions s
            \<and> data_sent_from_server s' = data_sent_from_server s"
proof (cases "evaluator_task s")
  case Awaiting_expectation
  from lockstep_Awaiting(1) [OF l this] have u: "unfinished_tasks s = length (expecations_queue s)" .
  from drain_from_head [OF e Awaiting_expectation] u show ?thesis by auto
next
  case (Evaluating x)
  note E = lockstep_Evaluating [OF l this]
  from E(4) e obtain ev q where q: "server_event_queue s = ev # q" and a: "awaits_event x"
    by (cases "server_event_queue s") auto
  from a q obtain r where r: "resume_evaluate x s = Some (r, s\<lparr>server_event_queue := q\<rparr>)"
    by (cases x) auto
  let ?s1 = "evaluated r (s\<lparr>server_event_queue := q\<rparr>)"
  have f: "fire Evaluator_runs s = Some ?s1" using Evaluating r by simp
  have u: "0 < unfinished_tasks (s\<lparr>server_event_queue := q\<rparr>)" using E(1) by simp
  have p1: "errors ?s1 \<noteq> []" "evaluator_task ?s1 = Awaiting_expectation"
    "unfinished_tasks ?s1 = length (expecations_queue s)" "expecations_queue ?s1 = expecations_queue s"
    "server_actions ?s1 = server_actions s" "data_sent_from_server ?s1 = data_sent_from_server s"
    using e E(1) evaluated_counted [OF u, of r]
    by (simp_all add: evaluated_errors_eq split: sum.splits)
  from drain_from_head [OF p1(1,2)] p1 f E(1) show ?thesis by auto
next
  case Evaluator_cancelled
  with c show ?thesis by simp
next
  case (Evaluator_failed x)
  with l show ?thesis by (simp add: lockstep_def)
qed

text \<open>
  Claim C1, as stated, fails once \<open>stop\<close> has cancelled the evaluator: after a
  \<open>join\<close> that raised, a further declared step followed by \<open>stop\<close> (whose \<open>join\<close>
  returns at once because of the flag) stays in the expectation queue for good,
  since the cancelled evaluator can neither run nor time out.
\<close>

theorem error_mode_stop_counterexample:
  "run [Call_expect_connect 1, Evaluator_runs, Evaluator_times_out, Call_join,
        Call_send_bytes ''x'', Call_stop] (MockTcpServer :: int server) =
     Some (MockTcpServer\<lparr>errors := [UnexpectedEventError ClientConnectedEvent TimeoutEvent],
        join_already_failed := True, stopped := True,
        server_actions := [ExpectConnect 1],
        expecations_queue := [SendBytes ''x''], unfinished_tasks := 1,
        evaluator_task := Evaluator_cancelled, server_action_task := Executor_cancelled\<rparr>)
   \<and> fire Evaluator_runs
       (MockTcpServer\<lparr>errors := [UnexpectedEventError ClientConnectedEvent TimeoutEvent],
        join_already_failed := True, stopped := True,
        server_actions := [ExpectConnect 1],
        expecations_queue := [SendBytes ''x''], unfinished_tasks := 1,
        evaluator_task := Evaluator_cancelled, server_action_task := Executor_cancelled\<rparr>
        :: int server) = None
   \<and> fire Evaluator_times_out
       (MockTcpServer\<lparr>errors := [UnexpectedEventError ClientConnectedEvent TimeoutEvent],
        join_already_failed := True, stopped := True,
        server_actions := [ExpectConnect 1],
        expecations_queue := [SendBytes ''x''], unfinished_tasks := 1,
        evaluator_task := Evaluator_cancelled, server_action_task := Executor_cancelled\<rparr>
        :: int server) = None"
  by (simp add: MockTcpServer_def declaration_defs call_defs task_defs
                ExpectConnect_evaluate_def)

text \<open>
  Claim C1, amended.  In every state with an error recorded, a pass of the
  evaluator takes the next declared step off the queue and ends its loop body
  at once, which marks the step processed (the counter, never zero at that
  point in a state the system reaches, goes down by one) and does nothing else
  (no action queued, no \<open>evaluate\<close>, no event taken, no error added), and a
  pass of the executor takes the next action off its queue and does nothing
  else (not executed, no event published).  Consequently, in every such state
  that a run of the system reaches, \<open>join\<close> does not hang: if \<open>stop\<close> has cancelled
  the evaluator, \<open>join\<close> is already free to finish; otherwise as many resumptions
  of the evaluator as there are unfinished tasks empty the expectation queue,
  bring the counter to zero, queue no action and send nothing, and \<open>join\<close> then
  finishes.
\<close>

theorem error_mode_drains:
  fixes s :: "'t server"
  assumes "errors s \<noteq> []"
  shows "(expecations_queue s = expectation # rest \<longrightarrow>
            evaluate_expectations s = Some (end_of_body (s\<lparr>expecations_queue := rest\<rparr>))
          \<and> server_actions (end_of_body (s\<lparr>expecations_queue := rest\<rparr>)) = server_actions s
          \<and> server_event_queue (end_of_body (s\<lparr>expecations_queue := rest\<rparr>)) =
              server_event_queue s
          \<and> errors (end_of_body (s\<lparr>expecations_queue := rest\<rparr>)) = errors s)
       \<and> (expecations_queue s = expectation # rest \<and> 0 < unfinished_tasks s \<longrightarrow>
            evaluate_expectations s =
              Some (s\<lparr>expecations_queue := rest, unfinished_tasks := unfinished_tasks s - 1,
                      evaluator_task := Awaiting_expectation\<rparr>))
       \<and> (server_actions s = server_action # rest' \<longrightarrow>
            execute_server_actions wr s = Some (s\<lparr>server_actions := rest'\<rparr>))
       \<and> (run ls MockTcpServer = Some s \<longrightarrow> lockstep s)
       \<and> (lockstep s \<longrightarrow>
            (if evaluator_task s = Evaluator_cancelled then join s \<noteq> Pending
             else (\<exists>s'. run (replicate (unfinished_tasks s) Evaluator_runs) s = Some s'
                     \<and> expecations_queue s' = [] \<and> unfinished_tasks s' = 0
                     \<and> server_actions s' = server_actions s
                     \<and> data_sent_from_server s' = data_sent_from_server s
                     \<and> join s' \<noteq> Pending)))"
proof (intro conjI impI)
  assume "expecations_queue s = expectation # rest"
  with assms
  show "evaluate_expectations s = Some (end_of_body (s\<lparr>expecations_queue := rest\<rparr>))"
    by (rule evaluate_expectations_skips)
next
  show "server_actions (end_of_body (s\<lparr>expecations_queue := rest\<rparr>)) = server_actions s"
    and "server_event_queue (end_of_body (s\<lparr>expecations_queue := rest\<rparr>)) =
           server_event_queue s"
    and "errors (end_of_body (s\<lparr>expecations_queue := rest\<rparr>)) = errors s"
    by simp_all
next
  assume a: "expecations_queue s = expectation # rest \<and> 0 < unfinished_tasks s"
  then have "0 < unfinished_tasks (s\<lparr>expecations_queue := rest\<rparr>)" by simp
  from end_of_body_counted [OF this] evaluate_expectations_skips [OF assms, of expectation rest] a
  show "evaluate_expectations s =
      Some (s\<lparr>expecations_queue := rest, unfinished_tasks := unfinished_tasks s - 1,
              evaluator_task := Awaiting_expectation\<rparr>)"
    by simp
next
  assume "server_actions s = server_action # rest'"
  with assms show "execute_server_actions wr s = Some (s\<lparr>server_actions := rest'\<rparr>)"
    by (rule execute_server_actions_drops)
next
  assume "run ls MockTcpServer = Some s"
  then show "lockstep s" by (rule lockstep_reachable)
next
  assume l: "lockstep s"
  show "if evaluator_task s = Evaluator_cancelled then join s \<noteq> Pending
        else (\<exists>s'. run (replicate (unfinished_tasks s) Evaluator_runs) s = Some s'
                \<and> expecations_queue s' = [] \<and> unfinished_tasks s' = 0
                \<and> server_actions s' = server_actions s
                \<and> data_sent_from_server s' = data_sent_from_server s
                \<and> join s' \<noteq> Pending)"
  proof (cases "evaluator_task s = Evaluator_cancelled")
    case True
    with l have "join_already_failed s \<or> unfinished_tasks s = 0"
      by (auto simp: lockstep_def split: if_splits)
    then have "join s \<noteq> Pending" by (auto simp: join_def split: list.splits)
    with True show ?thesis by simp
  next
    case False
    from drain_error_mode [OF l assms False] obtain s' where
      "run (replicate (unfinished_tasks s) Evaluator_runs) s = Some s'"
      "expecations_queue s' = []" "unfinished_tasks s' = 0"
      "server_actions s' = server_actions s"
      "data_sent_from_server s' = data_sent_from_server s" by blast
    moreover from this(3) have "join s' \<noteq> Pending"
      by (auto simp: join_def split: list.splits)
    ultimately show ?thesis using False by auto
  qed
qed

theorem error_mode_drains_witness:
  "run [Call_expect_connect 1, Call_send_bytes ''x'', Call_expect_disconnect 1,
        Evaluator_runs, Evaluator_times_out] (MockTcpServer :: int server) =
     Some (MockTcpServer\<lparr>errors := [UnexpectedEventError ClientConnectedEvent TimeoutEvent],
        server_actions := [ExpectConnect 1],
        expecations_queue := [SendBytes ''x'', ExpectReadZeroBytes 1,
          ExpectClientCalledWriterWaitClosed 1, ExpectClientReadAllSentBytes 1],
        unfinished_tasks := 4\<rparr>)
   \<and> evaluate_expectations (MockTcpServer\<lparr>errors := [UnexpectedEventError ClientConnectedEvent TimeoutEvent],
        server_actions := [ExpectConnect 1],
        expecations_queue := [SendBytes ''x'', ExpectReadZeroBytes 1,
          ExpectClientCalledWriterWaitClosed 1, ExpectClientReadAllSentBytes 1],
        unfinished_tasks := 4\<rparr> :: int server) =
     Some (MockTcpServer\<lparr>errors := [UnexpectedEventError ClientConnectedEvent TimeoutEvent],
        server_actions := [ExpectConnect 1],
        expecations_queue := [ExpectReadZeroBytes 1, ExpectClientCalledWriterWaitClosed 1,
          ExpectClientReadAllSentBytes 1],
        unfinished_tasks := 3\<rparr>)
   \<and> execute_server_actions None (MockTcpServer\<lparr>errors := [UnexpectedEventError ClientConnectedEvent TimeoutEvent],
        server_actions := [ExpectConnect 1],
        expecations_queue := [SendBytes ''x'', ExpectReadZeroBytes 1,
          ExpectClientCalledWriterWaitClosed 1, ExpectClientReadAllSentBytes 1],
        unfinished_tasks := 4\<rparr> :: int server) =
     Some (MockTcpServer\<lparr>errors := [UnexpectedEventError ClientConnectedEvent TimeoutEvent],
        expecations_queue := [SendBytes ''x'', ExpectReadZeroBytes 1,
          ExpectClientCalledWriterWaitClosed 1, ExpectClientReadAllSentBytes 1],
        unfinished_tasks := 4\<rparr>)
   \<and> run [Evaluator_runs, Evaluator_runs, Evaluator_runs, Evaluator_runs]
       (MockTcpServer\<lparr>errors := [UnexpectedEventError ClientConnectedEvent TimeoutEvent],
        server_actions := [ExpectConnect 1],
        expecations_queue := [SendBytes ''x'', ExpectReadZeroBytes 1,
          ExpectClientCalledWriterWaitClosed 1, ExpectClientReadAllSentBytes 1],
        unfinished_tasks := 4\<rparr> :: int server) =
     Some (MockTcpServer\<lparr>errors := [UnexpectedEventError ClientConnectedEvent TimeoutEvent],
        server_actions := [ExpectConnect 1]\<rparr>)
   \<and> join (MockTcpServer\<lparr>errors := [UnexpectedEventError ClientConnectedEvent TimeoutEvent],
        server_actions := [ExpectConnect 1]\<rparr> :: int server) =
     Raised (Exception [Lit ''Timed out waiting for client to connect''])
       (MockTcpServer\<lparr>errors := [UnexpectedEventError ClientConnectedEvent TimeoutEvent],
        server_actions := [ExpectConnect 1], join_already_failed := True\<rparr>)"
proof -
  have h: "errors (MockTcpServer\<lparr>errors := [UnexpectedEventError ClientConnectedEvent TimeoutEvent],
        server_actions := [ExpectConnect 1],
        expecations_queue := [SendBytes ''x'', ExpectReadZeroBytes 1,
          ExpectClientCalledWriterWaitClosed 1, ExpectClientReadAllSentBytes 1],
        unfinished_tasks := 4\<rparr> :: int server) \<noteq> []"
    by (simp add: MockTcpServer_def)
  show ?thesis
    using error_mode_drains
            [where s = "MockTcpServer\<lparr>errors := [UnexpectedEventError ClientConnectedEvent TimeoutEvent],
        server_actions := [ExpectConnect 1],
        expecations_queue := [SendBytes ''x'', ExpectReadZeroBytes 1,
          ExpectClientCalledWriterWaitClosed 1, ExpectClientReadAllSentBytes 1],
        unfinished_tasks := 4\<rparr> :: int server"
               and expectation = "SendBytes ''x''"
               and rest = "[ExpectReadZeroBytes 1, ExpectClientCalledWriterWaitClosed 1,
                            ExpectClientReadAllSentBytes 1]"
               and server_action = "ExpectConnect 1" and rest' = "[]" and wr = None
               and ls = "[Call_expect_connect 1, Call_send_bytes ''x'', Call_expect_disconnect 1,
                          Evaluator_runs, Evaluator_times_out]",
             OF h]
    by (simp add: MockTcpServer_def declaration_defs call_defs task_defs
                  ExpectConnect_evaluate_def interpret_error_def)
qed

section \<open>The sent ledger after a run without errors\<close>

lemma payloads_simps [simp]:
  "payloads [] = []"
  "payloads (x # xs) = payload x @ payloads xs"
  "payloads (xs @ ys) = payloads xs @ payloads ys"
  by (simp_all add: payloads_def)

lemma evaluated_errors:
  "errors (evaluated r s) = [] \<Longrightarrow> errors s = []"
  by (cases r) (simp_all add: evaluated_errors_eq)

lemma evaluated_ledger:
  "ledger_due (evaluated r s) = ledger_due s"
  by (simp add: ledger_due_def)

lemma publish_errors:
  "errors (publish r s) = [] \<Longrightarrow> errors s = []"
  by (cases r) (auto simp: publish_def error_def split: option.splits)

lemma publish_ledger:
  "ledger_due (publish r s) = ledger_due s"
  by (cases r) (auto simp: publish_def error_def ledger_due_def split: option.splits)

lemma evaluate_expectations_ledger:
  assumes "evaluate_expectations s = Some s'" "errors s' = []"
  shows "errors s = [] \<and> ledger_due s' = ledger_due s"
proof (cases "expecations_queue s")
  case Nil
  with assms show ?thesis by (simp add: evaluate_expectations_def)
next
  case (Cons e rest)
  show ?thesis
  proof (cases "errors s = []")
    case False
    with assms Cons show ?thesis
      by (auto simp: evaluate_expectations_def Let_def)
  next
    case True
    define s2 where "s2 = s\<lparr>expecations_queue := rest, server_actions := server_actions s @ [e]\<rparr>"
    have d2: "ledger_due s2 = ledger_due s"
      using Cons by (simp add: s2_def ledger_due_def)
    show ?thesis
    proof (cases "begin_evaluate e s2")
      case None
      with assms Cons True have "s' = s2\<lparr>evaluator_task := Evaluating e\<rparr>"
        by (simp add: evaluate_expectations_def Let_def s2_def)
      with d2 True show ?thesis by (simp add: ledger_due_def)
    next
      case (Some p)
      obtain r s3 where p: "p = (r, s3)" by (cases p)
      with assms Cons True Some have s': "s' = evaluated r s3"
        by (simp add: evaluate_expectations_def Let_def s2_def)
      from Some p have "begin_evaluate e s2 = Some (r, s3)" by simp
      from begin_evaluate_cases [OF this] have "ledger_due s3 = ledger_due s2"
        by (auto simp: ledger_due_def)
      with s' assms(2) d2 True show ?thesis by (simp add: evaluated_ledger)
    qed
  qed
qed

lemma resume_evaluate_ledger:
  assumes "resume_evaluate e s = Some (r, s1)"
  shows "ledger_due s1 = ledger_due s \<and> errors s1 = errors s"
  using resume_evaluate_cases [OF assms] by (auto simp: ledger_due_def)

lemma execute_server_actions_ledger:
  assumes x: "execute_server_actions wr s = Some s'" and e: "errors s' = []"
    and w: "write_succeeds (Executor_runs wr) s"
  shows "errors s = [] \<and> ledger_due s' = ledger_due s"
proof (cases "server_actions s")
  case Nil
  with x show ?thesis by (simp add: execute_server_actions_def)
next
  case (Cons a rest)
  show ?thesis
  proof (cases "errors s = []")
    case False
    with x Cons e show ?thesis by (auto simp: execute_server_actions_def Let_def)
  next
    case True
    let ?s1 = "s\<lparr>server_actions := rest\<rparr>"
    show ?thesis
    proof (cases a)
      case (SendBytes d)
      with w Cons True have "writer_write s wr = None" by (simp add: write_succeeds_def)
      then have "writer_write ?s1 wr = None" by (simp add: writer_write_def)
      with x Cons True SendBytes
      have "s' = s\<lparr>server_actions := rest, data_sent_from_server := data_sent_from_server s @ d\<rparr>"
        by (simp add: execute_server_actions_def Let_def SendBytes_server_action_def publish_def)
      with Cons SendBytes True show ?thesis by (simp add: ledger_due_def)
    next
      case (ExpectConnect t)
      with x Cons True have "s' = publish ExpectConnect_server_action ?s1"
        by (simp add: execute_server_actions_def Let_def)
      with Cons ExpectConnect True show ?thesis by (simp add: publish_ledger) (simp add: ledger_due_def)
    next
      case (ExpectClientCalledWriterWaitClosed t)
      with x Cons True have "s' = publish ExpectClientCalledWriterWaitClosed_server_action ?s1"
        by (simp add: execute_server_actions_def Let_def)
      with Cons ExpectClientCalledWriterWaitClosed True show ?thesis
        by (simp add: publish_ledger) (simp add: ledger_due_def)
    next
      case (ExpectClientReadAllSentBytes t)
      with x Cons True have "s' = publish (ExpectClientReadAllSentBytes_server_action t ?s1) ?s1"
        by (simp add: execute_server_actions_def Let_def)
      with Cons ExpectClientReadAllSentBytes True show ?thesis
        by (simp add: publish_ledger) (simp add: ledger_due_def)
    next
      case (ExpectBytes b t)
      with x Cons True have "s' = publish (ExpectBytes_server_action (Read_raises AttributeError)) ?s1
          \<or> s' = ?s1\<lparr>server_action_task := Executing a\<rparr>"
        by (simp add: execute_server_actions_def Let_def split: if_splits)
      with Cons ExpectBytes True show ?thesis
        by (auto simp: publish_ledger) (simp_all add: ledger_due_def)
    next
      case (ExpectReadZeroBytes t)
      with x Cons True have "s' = publish (ExpectReadZeroBytes_server_action (Read_raises AttributeError)) ?s1
          \<or> s' = ?s1\<lparr>server_action_task := Executing a\<rparr>"
        by (simp add: execute_server_actions_def Let_def split: if_splits)
      with Cons ExpectReadZeroBytes True show ?thesis
        by (auto simp: publish_ledger) (simp_all add: ledger_due_def)
    qed
  qed
qed


lemma declared_ledger:
  "errors (declared s (expect_connect t s)) = errors s"
  "errors (declared s (expect_bytes b t s)) = errors s"
  "errors (declared s (send_bytes b s)) = errors s"
  "errors (declared s (expect_disconnect t s)) = errors s"
  "ledger_due (declared s (expect_connect t s)) = ledger_due s"
  "ledger_due (declared s (expect_bytes b t s)) = ledger_due s"
  "ledger_due (declared s (send_bytes b s)) = ledger_due s @ (if stopped s then [] else b)"
  "ledger_due (declared s (expect_disconnect t s)) = ledger_due s"
  by (simp_all add: declaration_defs ledger_due_def)

lemma called_join_ledger:
  assumes "called (join s) = Some s'"
  shows "ledger_due s' = ledger_due s \<and> errors s' = errors s"
  using join_cases [OF assms] by (auto simp: ledger_due_def)

lemma called_stop_ledger:
  assumes "called (stop s) = Some s'"
  shows "ledger_due s' = ledger_due s \<and> errors s' = errors s"
proof -
  from stop_cases [OF assms] obtain s1 where "called (join s) = Some s1" "s' = stop_finally s1"
    by blast
  with called_join_ledger [of s s1] show ?thesis
    by (simp add: stop_finally_def ledger_due_def split: evaluator_pc.splits)
qed

lemma fire_ledger:
  assumes f: "fire l s = Some s'" and e: "errors s' = []" and w: "write_succeeds l s"
  shows "errors s = [] \<and>
         ledger_due s' = ledger_due s @ payloads (if stopped s then [] else steps_declared l)"
proof (cases l)
  case (Call_expect_connect t)
  with f e show ?thesis by (auto simp: declared_ledger)
next
  case (Call_expect_bytes b t)
  with f e show ?thesis by (auto simp: declared_ledger)
next
  case (Call_send_bytes b)
  with f e show ?thesis by (auto simp: declared_ledger)
next
  case (Call_expect_disconnect t)
  with f e show ?thesis by (auto simp: declared_ledger)
next
  case Call_join
  with f e called_join_ledger [of s s'] show ?thesis by auto
next
  case Call_stop
  with f e called_stop_ledger [of s s'] show ?thesis by auto
next
  case (Client_connects r w)
  with f e show ?thesis
    by (auto simp: handle_client_connection_def ledger_due_def split: if_splits)
next
  case (Client_reads d)
  with f e show ?thesis by (auto simp: client_read_def ledger_due_def)
next
  case Client_waits_closed
  with f e show ?thesis by (auto simp: client_writer_wait_closed_def ledger_due_def)
next
  case Evaluator_runs
  show ?thesis
  proof (cases "evaluator_task s")
    case Awaiting_expectation
    with f e Evaluator_runs evaluate_expectations_ledger [of s s'] show ?thesis by simp
  next
    case (Evaluating x)
    with f Evaluator_runs obtain r s1 where r: "resume_evaluate x s = Some (r, s1)"
      and s': "s' = evaluated r s1"
      by (cases "resume_evaluate x s") auto
    from e s' have "errors s1 = []" "ledger_due s' = ledger_due s1"
      by (auto simp: evaluated_errors evaluated_ledger)
    with resume_evaluate_ledger [OF r] Evaluator_runs show ?thesis by simp
  next
    case Evaluator_cancelled
    with f Evaluator_runs show ?thesis by simp
  next
    case (Evaluator_failed x)
    with f Evaluator_runs show ?thesis by simp
  qed
next
  case Evaluator_times_out
  show ?thesis
  proof (cases "evaluator_task s")
    case (Evaluating x)
    show ?thesis
    proof (cases "timeout_evaluate x")
      case None
      with f Evaluating Evaluator_times_out show ?thesis by simp
    next
      case (Some r)
      with f Evaluating Evaluator_times_out have "s' = evaluated r s" by simp
      with e timeout_evaluate_raises [OF Some] show ?thesis
        by (auto simp: evaluated_errors_eq)
    qed
  qed (use f Evaluator_times_out in simp_all)
next
  case (Executor_runs wr)
  with f have "execute_server_actions wr s = Some s'"
    by (cases "server_action_task s") simp_all
  from execute_server_actions_ledger [OF this e] w Executor_runs show ?thesis by simp
next
  case (Executor_completes rr)
  show ?thesis
  proof (cases "server_action_task s")
    case (Executing a)
    show ?thesis
    proof (cases "server_action_completes a rr")
      case None
      with f Executing Executor_completes show ?thesis by simp
    next
      case (Some r)
      with f Executing Executor_completes
      have "s' = publish r (s\<lparr>server_action_task := Awaiting_action\<rparr>)" by simp
      with e publish_errors [of r "s\<lparr>server_action_task := Awaiting_action\<rparr>"]
        Executor_completes
      show ?thesis by (simp add: publish_ledger) (simp add: ledger_due_def)
    qed
  qed (use f Executor_completes in simp_all)
qed

lemma run_ledger:
  assumes "run ls s = Some s'" "errors s' = []" "writes_succeed ls s"
  shows "errors s = [] \<and> ledger_due s' = ledger_due s @ payloads (script ls s)"
  using assms
proof (induction ls arbitrary: s)
  case Nil
  then show ?case by simp
next
  case (Cons l ls)
  from Cons.prems(1) obtain s1 where f: "fire l s = Some s1" and r: "run ls s1 = Some s'"
    by (auto split: option.splits)
  from Cons.prems(3) f have w: "write_succeeds l s" "writes_succeed ls s1" by simp_all
  from Cons.IH [OF r Cons.prems(2) w(2)]
  have 1: "errors s1 = []" "ledger_due s' = ledger_due s1 @ payloads (script ls s1)" by simp_all
  from fire_ledger [OF f 1(1) w(1)] 1(2) f show ?case by simp
qed

lemma lockstep_drained:
  assumes "lockstep s" "errors s = []" "unfinished_tasks s = 0"
  shows "expecations_queue s = []"
  using assms by (cases "evaluator_task s") (auto simp: lockstep_def split: if_splits)

lemma lockstep_alive:
  assumes "lockstep s" "errors s = []" "unfinished_tasks s > 0"
  shows "evaluator_task s \<noteq> Evaluator_cancelled"
  using assms by (auto simp: lockstep_def split: if_splits)

subsection \<open>The engine is never stuck, and its moves run out\<close>

lemma evaluate_expectations_enabled:
  assumes "expecations_queue s \<noteq> []"
  shows "\<exists>s'. evaluate_expectations s = Some s'"
  using assms
  by (cases "expecations_queue s")
     (auto simp: evaluate_expectations_def Let_def split: option.splits)

lemma execute_server_actions_enabled:
  assumes "server_actions s \<noteq> []"
  shows "\<exists>s'. execute_server_actions wr s = Some s'"
proof (cases "server_actions s")
  case Nil
  with assms show ?thesis by simp
next
  case (Cons a rest)
  then show ?thesis
    by (cases a) (auto simp: execute_server_actions_def Let_def split: prod.splits)
qed

lemma resume_evaluate_enabled:
  assumes "awaits_event e" "server_event_queue s \<noteq> []"
  shows "\<exists>p. resume_evaluate e s = Some p"
  using assms by (cases e; cases "server_event_queue s") auto

lemma timeout_evaluate_enabled:
  assumes "evaluate_suspends e" "\<not> awaits_event e"
  shows "\<exists>r. timeout_evaluate e = Some r"
  using assms by (cases e) auto

lemma server_action_completes_enabled:
  assumes "action_suspends a"
  shows "\<exists>r. server_action_completes a rr = Some r"
  using assms by (cases a) auto

lemma engine_progress:
  assumes l: "lockstep s" and u: "unfinished_tasks s > 0"
    and c: "evaluator_task s \<noteq> Evaluator_cancelled"
  shows "\<exists>lab s'. engine_move lab \<and> fire lab s = Some s'"
proof (cases "evaluator_task s")
  case Awaiting_expectation
  with lockstep_Awaiting(1) [OF l this] u have "expecations_queue s \<noteq> []" by auto
  from evaluate_expectations_enabled [OF this] Awaiting_expectation
  have "\<exists>s'. fire Evaluator_runs s = Some s'" by simp
  then show ?thesis using engine_move.simps(1) by blast
next
  case Evaluator_cancelled
  with c show ?thesis by simp
next
  case (Evaluator_failed x)
  with l show ?thesis by (simp add: lockstep_def)
next
  case (Evaluating e)
  note E = lockstep_Evaluating [OF l Evaluating]
  have runs: ?thesis if "awaits_event e" "server_event_queue s \<noteq> []"
  proof -
    from resume_evaluate_enabled [OF that] obtain r s1 where "resume_evaluate e s = Some (r, s1)"
      by (metis surj_pair)
    with Evaluating have "fire Evaluator_runs s = Some (evaluated r s1)" by simp
    then show ?thesis using engine_move.simps(1) by blast
  qed
  show ?thesis
  proof (cases "errors s = []")
    case False
    with E(4) runs show ?thesis by simp
  next
    case True
    with E(3) have o: "owed s = (if awaits_event e then 1 else 0)" by simp
    show ?thesis
    proof (cases "awaits_event e")
      case False
      from timeout_evaluate_enabled [OF E(7) False] obtain r where "timeout_evaluate e = Some r" ..
      with Evaluating have "fire Evaluator_times_out s = Some (evaluated r s)" by simp
      then show ?thesis using engine_move.simps(2) by blast
    next
      case ae: True
      show ?thesis
      proof (cases "server_event_queue s = []")
        case False
        with runs ae show ?thesis by simp
      next
        case q: True
        show ?thesis
        proof (cases "server_action_task s")
          case (Executing a)
          with E(5) have "action_suspends a" by simp
          from server_action_completes_enabled [OF this]
          obtain r where "server_action_completes a (Read_raises TimeoutError) = Some r" ..
          with Executing have "fire (Executor_completes (Read_raises TimeoutError)) s =
              Some (publish r (s\<lparr>server_action_task := Awaiting_action\<rparr>))" by simp
          then show ?thesis using engine_move.simps(4) by blast
        next
          case Executor_cancelled
          with E(6) show ?thesis by simp
        next
          case Awaiting_action
          with o ae q have "server_actions s \<noteq> []" by (auto simp: owed_def)
          from execute_server_actions_enabled [OF this, of None] Awaiting_action
          have "\<exists>s'. fire (Executor_runs None) s = Some s'" by simp
          then show ?thesis using engine_move.simps(3) by blast
        qed
      qed
    qed
  qed
qed

lemma work_left_evaluated:
  "work_left (evaluated r s) =
     6 * length (expecations_queue s) + 2 * length (server_actions s)
     + (case server_action_task s of Executing server_action \<Rightarrow> 1 | _ \<Rightarrow> 0)"
  by (cases r; cases "unfinished_tasks s = 0")
     (simp_all add: work_left_def evaluated_def end_of_body_def task_done_def error_def)

lemma work_left_publish:
  "work_left (publish r s) = work_left s"
  by (cases r) (auto simp: work_left_def publish_def error_def split: option.splits)

lemma evaluate_expectations_work_left:
  assumes "evaluator_task s = Awaiting_expectation" "evaluate_expectations s = Some s'"
  shows "work_left s' < work_left s"
proof (cases "expecations_queue s")
  case Nil
  with assms show ?thesis by (simp add: evaluate_expectations_def)
next
  case (Cons e rest)
  show ?thesis
  proof (cases "errors s = []")
    case False
    with assms Cons show ?thesis
      by (cases "unfinished_tasks s = 0")
         (auto simp: evaluate_expectations_def Let_def end_of_body_def task_done_def
                     work_left_def)
  next
    case True
    define s2 where "s2 = s\<lparr>expecations_queue := rest, server_actions := server_actions s @ [e]\<rparr>"
    show ?thesis
    proof (cases "begin_evaluate e s2")
      case None
      with assms Cons True have "s' = s2\<lparr>evaluator_task := Evaluating e\<rparr>"
        by (simp add: evaluate_expectations_def Let_def s2_def)
      with assms(1) Cons show ?thesis by (simp add: work_left_def s2_def)
    next
      case (Some p)
      obtain r s3 where p: "p = (r, s3)" by (cases p)
      with assms Cons True Some have s': "s' = evaluated r s3"
        by (simp add: evaluate_expectations_def Let_def s2_def)
      from Some p have "begin_evaluate e s2 = Some (r, s3)" by simp
      from begin_evaluate_cases [OF this]
      have "expecations_queue s3 = rest \<and> server_actions s3 = server_actions s @ [e]
            \<and> server_action_task s3 = server_action_task s"
        by (auto simp: s2_def)
      with s' assms(1) Cons show ?thesis
        by (simp add: work_left_evaluated) (simp add: work_left_def)
    qed
  qed
qed

lemma execute_server_actions_work_left:
  assumes "server_action_task s = Awaiting_action" "execute_server_actions wr s = Some s'"
  shows "work_left s' < work_left s"
proof (cases "server_actions s")
  case Nil
  with assms show ?thesis by (simp add: execute_server_actions_def)
next
  case (Cons a rest)
  let ?s1 = "s\<lparr>server_actions := rest\<rparr>"
  have w1: "work_left ?s1 < work_left s"
    "work_left (?s1\<lparr>server_action_task := Executing a\<rparr>) < work_left s"
    "work_left (?s1\<lparr>data_sent_from_server := d\<rparr>) < work_left s" for d
    using Cons assms(1) by (simp_all add: work_left_def)
  from assms(2) Cons have "(\<exists>r. s' = publish r ?s1) \<or> s' = ?s1\<lparr>server_action_task := Executing a\<rparr>
      \<or> (\<exists>r d. s' = publish r (?s1\<lparr>data_sent_from_server := d\<rparr>)) \<or> s' = ?s1"
    by (cases a)
       (auto simp: execute_server_actions_def Let_def SendBytes_server_action_def
             split: if_splits option.splits)
  with w1 show ?thesis by (auto simp: work_left_publish)
qed


lemma engine_move_work_left:
  assumes m: "engine_move lab" and f: "fire lab s = Some s'"
  shows "work_left s' < work_left s"
proof (cases lab)
  case Evaluator_runs
  show ?thesis
  proof (cases "evaluator_task s")
    case Awaiting_expectation
    with f Evaluator_runs evaluate_expectations_work_left [of s s'] show ?thesis by simp
  next
    case (Evaluating e)
    with f Evaluator_runs obtain r s1 where r: "resume_evaluate e s = Some (r, s1)"
      and s': "s' = evaluated r s1"
      by (cases "resume_evaluate e s") auto
    from resume_evaluate_cases [OF r]
    have "expecations_queue s1 = expecations_queue s \<and> server_actions s1 = server_actions s
          \<and> server_action_task s1 = server_action_task s" by auto
    with s' Evaluating show ?thesis
      by (simp add: work_left_evaluated) (simp add: work_left_def)
  next
    case Evaluator_cancelled
    with f Evaluator_runs show ?thesis by simp
  next
    case (Evaluator_failed x)
    with f Evaluator_runs show ?thesis by simp
  qed
next
  case Evaluator_times_out
  show ?thesis
  proof (cases "evaluator_task s")
    case (Evaluating e)
    show ?thesis
    proof (cases "timeout_evaluate e")
      case None
      with f Evaluating Evaluator_times_out show ?thesis by simp
    next
      case (Some r)
      with f Evaluating Evaluator_times_out have "s' = evaluated r s" by simp
      with Evaluating show ?thesis
        by (simp add: work_left_evaluated) (simp add: work_left_def)
    qed
  qed (use f Evaluator_times_out in simp_all)
next
  case (Executor_runs wr)
  show ?thesis
  proof (cases "server_action_task s")
    case Awaiting_action
    with f Executor_runs execute_server_actions_work_left [of s wr s'] show ?thesis by simp
  qed (use f Executor_runs in simp_all)
next
  case (Executor_completes rr)
  show ?thesis
  proof (cases "server_action_task s")
    case (Executing a)
    show ?thesis
    proof (cases "server_action_completes a rr")
      case None
      with f Executing Executor_completes show ?thesis by simp
    next
      case (Some r)
      with f Executing Executor_completes
      have "s' = publish r (s\<lparr>server_action_task := Awaiting_action\<rparr>)" by simp
      with Executing show ?thesis
        by (simp add: work_left_publish) (simp add: work_left_def)
    qed
  qed (use f Executor_completes in simp_all)
qed (use m in simp_all)

text \<open>
  Claim C8, as stated, fails when a write raises: \<open>send_bytes\<close> declared on a
  server no client has connected to finds no writer, \<open>SendBytes.server_action\<close>
  swallows the exception, no error is recorded, \<open>join\<close> returns, and the sent
  ledger stays empty although the script holds the payload.
\<close>

theorem sent_ledger_write_fails_counterexample:
  "run [Call_send_bytes ''abc'', Evaluator_runs, Executor_runs None, Call_join]
     (MockTcpServer :: int server) = Some MockTcpServer
   \<and> script [Call_send_bytes ''abc'', Evaluator_runs, Executor_runs None, Call_join]
       (MockTcpServer :: int server) = [SendBytes ''abc'']
   \<and> errors (MockTcpServer :: int server) = []
   \<and> server_actions (MockTcpServer :: int server) = []
   \<and> unfinished_tasks (MockTcpServer :: int server) = 0
   \<and> join (MockTcpServer :: int server) = Returned MockTcpServer
   \<and> data_sent_from_server (MockTcpServer :: int server) = []
   \<and> payloads [SendBytes ''abc'' :: int step] = ''abc''"
  by (simp add: MockTcpServer_def declaration_defs call_defs task_defs writer_write_def
                SendBytes_evaluate_def)

text \<open>
  Claim C8, amended.  Take any run from a fresh server that ends with no error
  recorded and in which every write attempted by a \<open>SendBytes\<close> action
  succeeded.  If the expectation queue has drained, \<open>join\<close> returns without
  raising; if moreover no action is left to execute, the sent ledger is the
  concatenation, in declaration order, of the payloads of the declared
  \<open>SendBytes\<close> steps.  And the queue does drain: as long as a task is
  unfinished one of the two tasks can move, and every such move makes
  \<open>work_left\<close> smaller.
\<close>

theorem sent_ledger_is_script_payloads:
  fixes s :: "'t server"
  assumes "run ls MockTcpServer = Some s"
    and "errors s = []"
    and "writes_succeed ls MockTcpServer"
  shows "(unfinished_tasks s = 0 \<longrightarrow> join s = Returned s)
       \<and> (unfinished_tasks s = 0 \<and> server_actions s = [] \<longrightarrow>
            data_sent_from_server s = payloads (script ls MockTcpServer))
       \<and> (unfinished_tasks s > 0 \<longrightarrow> (\<exists>lab s'. engine_move lab \<and> fire lab s = Some s'))
       \<and> (engine_move lab \<and> fire lab s = Some s' \<longrightarrow> work_left s' < work_left s)"
proof (intro conjI impI)
  assume "unfinished_tasks s = 0"
  with assms(2) show "join s = Returned s" by (simp add: join_def)
next
  assume a: "unfinished_tasks s = 0 \<and> server_actions s = []"
  then have "expecations_queue s = []"
    using lockstep_drained [OF lockstep_reachable [OF assms(1)] assms(2)] by simp
  with run_ledger [OF assms] a
  show "data_sent_from_server s = payloads (script ls MockTcpServer)"
    by (simp add: ledger_due_def MockTcpServer_def)
next
  assume u: "unfinished_tasks s > 0"
  note l = lockstep_reachable [OF assms(1)]
  from engine_progress [OF l u lockstep_alive [OF l assms(2) u]]
  show "\<exists>lab s'. engine_move lab \<and> fire lab s = Some s'" .
next
  assume "engine_move lab \<and> fire lab s = Some s'"
  then show "work_left s' < work_left s" by (auto intro: engine_move_work_left)
qed

theorem sent_ledger_is_script_payloads_witness:
  "run [Client_connects 1 2, Call_expect_connect 1, Call_send_bytes ''ab'', Call_send_bytes ''c'',
        Evaluator_runs, Evaluator_runs, Evaluator_runs, Evaluator_runs,
        Executor_runs None, Executor_runs None, Executor_runs None] (MockTcpServer :: int server) =
     Some (MockTcpServer\<lparr>connected := True, reader := Some 1, writer := Some 2,
          data_sent_from_server := ''abc''\<rparr>)
   \<and> script [Client_connects 1 2, Call_expect_connect 1, Call_send_bytes ''ab'', Call_send_bytes ''c'',
        Evaluator_runs, Evaluator_runs, Evaluator_runs, Evaluator_runs,
        Executor_runs None, Executor_runs None, Executor_runs None] (MockTcpServer :: int server) =
       [ExpectConnect 1, SendBytes ''ab'', SendBytes ''c'']
   \<and> join (MockTcpServer\<lparr>connected := True, reader := Some 1, writer := Some 2,
          data_sent_from_server := ''abc''\<rparr> :: int server) =
       Returned (MockTcpServer\<lparr>connected := True, reader := Some 1, writer := Some 2,
          data_sent_from_server := ''abc''\<rparr>)
   \<and> data_sent_from_server (MockTcpServer\<lparr>connected := True, reader := Some 1, writer := Some 2,
          data_sent_from_server := ''abc''\<rparr> :: int server) =
       payloads [ExpectConnect (1::int), SendBytes ''ab'', SendBytes ''c'']
   \<and> fire Evaluator_runs (MockTcpServer\<lparr>expecations_queue := [SendBytes ''x''], unfinished_tasks := 1\<rparr> :: int server) =
       Some (MockTcpServer\<lparr>server_actions := [SendBytes ''x'']\<rparr>)
   \<and> work_left (MockTcpServer\<lparr>server_actions := [SendBytes ''x'']\<rparr> :: int server) <
       work_left (MockTcpServer\<lparr>expecations_queue := [SendBytes ''x''], unfinished_tasks := 1\<rparr> :: int server)"
proof -
  have r: "run [Client_connects 1 2, Call_expect_connect 1, Call_send_bytes ''ab'', Call_send_bytes ''c'',
        Evaluator_runs, Evaluator_runs, Evaluator_runs, Evaluator_runs,
        Executor_runs None, Executor_runs None, Executor_runs None] (MockTcpServer :: int server) =
     Some (MockTcpServer\<lparr>connected := True, reader := Some 1, writer := Some 2,
          data_sent_from_server := ''abc''\<rparr>)"
    by (simp add: MockTcpServer_def declaration_defs peer_defs task_defs writer_write_def
                  SendBytes_evaluate_def ExpectConnect_evaluate_def
                  ExpectConnect_server_action_def)
  have e: "errors (MockTcpServer\<lparr>connected := True, reader := Some 1, writer := Some 2,
          data_sent_from_server := ''abc''\<rparr> :: int server) = []"
    by (simp add: MockTcpServer_def)
  have w: "writes_succeed [Client_connects 1 2, Call_expect_connect 1, Call_send_bytes ''ab'', Call_send_bytes ''c'',
        Evaluator_runs, Evaluator_runs, Evaluator_runs, Evaluator_runs,
        Executor_runs None, Executor_runs None, Executor_runs None] (MockTcpServer :: int server)"
    by (simp add: MockTcpServer_def declaration_defs peer_defs task_defs writer_write_def
                  SendBytes_evaluate_def ExpectConnect_evaluate_def
                  ExpectConnect_server_action_def write_succeeds_def)
  have u: "unfinished_tasks (MockTcpServer\<lparr>connected := True, reader := Some 1, writer := Some 2,
          data_sent_from_server := ''abc''\<rparr> :: int server) = 0"
    by (simp add: MockTcpServer_def)
  have a: "server_actions (MockTcpServer\<lparr>connected := True, reader := Some 1, writer := Some 2,
          data_sent_from_server := ''abc''\<rparr> :: int server) = []"
    by (simp add: MockTcpServer_def)
  have s: "script [Client_connects 1 2, Call_expect_connect 1, Call_send_bytes ''ab'', Call_send_bytes ''c'',
        Evaluator_runs, Evaluator_runs, Evaluator_runs, Evaluator_runs,
        Executor_runs None, Executor_runs None, Executor_runs None] (MockTcpServer :: int server) =
       [ExpectConnect 1, SendBytes ''ab'', SendBytes ''c'']"
    by (simp add: MockTcpServer_def declaration_defs peer_defs task_defs writer_write_def
                  SendBytes_evaluate_def ExpectConnect_evaluate_def
                  ExpectConnect_server_action_def)
  from sent_ledger_is_script_payloads [OF r e w] u a
  have j: "join (MockTcpServer\<lparr>connected := True, reader := Some 1, writer := Some 2,
          data_sent_from_server := ''abc''\<rparr> :: int server) =
       Returned (MockTcpServer\<lparr>connected := True, reader := Some 1, writer := Some 2,
          data_sent_from_server := ''abc''\<rparr>)"
    and d: "data_sent_from_server (MockTcpServer\<lparr>connected := True, reader := Some 1, writer := Some 2,
          data_sent_from_server := ''abc''\<rparr> :: int server) =
       payloads [ExpectConnect (1::int), SendBytes ''ab'', SendBytes ''c'']"
    unfolding s by blast+
  have r1: "run [Call_send_bytes ''x''] (MockTcpServer :: int server) =
      Some (MockTcpServer\<lparr>expecations_queue := [SendBytes ''x''], unfinished_tasks := 1\<rparr>)"
    by (simp add: MockTcpServer_def declaration_defs)
  have e1: "errors (MockTcpServer\<lparr>expecations_queue := [SendBytes ''x''], unfinished_tasks := 1\<rparr> :: int server) = []"
    by (simp add: MockTcpServer_def)
  have w1: "writes_succeed [Call_send_bytes ''x''] (MockTcpServer :: int server)"
    by (simp add: write_succeeds_def)
  have f1: "fire Evaluator_runs (MockTcpServer\<lparr>expecations_queue := [SendBytes ''x''], unfinished_tasks := 1\<rparr> :: int server) =
       Some (MockTcpServer\<lparr>server_actions := [SendBytes ''x'']\<rparr>)"
    by (simp add: MockTcpServer_def task_defs SendBytes_evaluate_def)
  have m1: "engine_move (Evaluator_runs :: int label)" by simp
  from sent_ledger_is_script_payloads [OF r1 e1 w1, where lab = Evaluator_runs] m1 f1
  have v: "work_left (MockTcpServer\<lparr>server_actions := [SendBytes ''x'']\<rparr> :: int server) <
       work_left (MockTcpServer\<lparr>expecations_queue := [SendBytes ''x''], unfinished_tasks := 1\<rparr> :: int server)"
    by blast
  show ?thesis by (intro conjI) (rule r s j d f1 v)+
qed

end
